theory Spec2Isabelle
  imports Main
begin

section \<open>Billing cycle manager\<close>

text \<open>
  The class \<open>BillingCycleManager\<close> of \<open>lib/billing-cycle\<close>. Its three data fields
  form the record; \<open>pendingResponses\<close> is a JavaScript number that only ever holds
  integers, modelled as \<open>int\<close>. Every call of \<open>Date.now()\<close> becomes a parameter
  \<open>now\<close> (milliseconds), so that nothing is assumed about the clock.
\<close>

definition CYCLE_TIMEOUT_MS :: int where
  "CYCLE_TIMEOUT_MS = 5 * 60 * 1000"

datatype initiator = User | Agent

record billing =
  inCycle :: bool
  lastResponseTime :: int
  pendingResponses :: int

definition initial :: billing where
  "initial = \<lparr>inCycle = False, lastResponseTime = 0, pendingResponses = 0\<rparr>"

text \<open>The first \<open>if\<close> of the critical section: the lazy timeout check.\<close>

definition timedOut :: "int \<Rightarrow> billing \<Rightarrow> bool" where
  "timedOut now b \<longleftrightarrow>
     inCycle b \<and> pendingResponses b = 0 \<and> now - lastResponseTime b > CYCLE_TIMEOUT_MS"

definition expireCheck :: "int \<Rightarrow> billing \<Rightarrow> billing" where
  "expireCheck now b = (if timedOut now b then b\<lparr>inCycle := False\<rparr> else b)"

text \<open>The second \<open>if\<close> and the fall-through: the verdict and the counter.\<close>

definition decide :: "billing \<Rightarrow> initiator \<times> billing" where
  "decide b =
     (if \<not> inCycle b
      then (User, b\<lparr>inCycle := True, pendingResponses := pendingResponses b + 1\<rparr>)
      else (Agent, b\<lparr>pendingResponses := pendingResponses b + 1\<rparr>))"

text \<open>
  The body of \<open>determineInitiator\<close> between acquiring and releasing the lock. It
  contains no \<open>await\<close>, so it runs as one step.
\<close>

definition determineInitiator :: "int \<Rightarrow> billing \<Rightarrow> initiator \<times> billing" where
  "determineInitiator now b = decide (expireCheck now b)"

definition markResponseComplete :: "int \<Rightarrow> billing \<Rightarrow> billing" where
  "markResponseComplete now b =
     b\<lparr>lastResponseTime := now, pendingResponses := max 0 (pendingResponses b - 1)\<rparr>"

definition markRequestFailed :: "billing \<Rightarrow> billing" where
  "markRequestFailed b =
     (let b1 = b\<lparr>pendingResponses := max 0 (pendingResponses b - 1)\<rparr>
      in if pendingResponses b1 = 0 \<and> lastResponseTime b1 = 0
         then b1\<lparr>inCycle := False\<rparr> else b1)"

definition reset :: "billing \<Rightarrow> billing" where
  "reset b = b\<lparr>inCycle := False, lastResponseTime := 0, pendingResponses := 0\<rparr>"

text \<open>A call of one of the four public operations, and a sequence of such calls.\<close>

datatype call = Determine int | Complete int | Failed | Reset

fun perform :: "call \<Rightarrow> billing \<Rightarrow> billing" where
  "perform (Determine now) b = snd (determineInitiator now b)"
| "perform (Complete now) b = markResponseComplete now b"
| "perform Failed b = markRequestFailed b"
| "perform Reset b = reset b"

fun performAll :: "call list \<Rightarrow> billing \<Rightarrow> billing" where
  "performAll [] b = b"
| "performAll (c # cs) b = performAll cs (perform c b)"





section \<open>Concurrent calls of determineInitiator\<close>

text \<open>
  \<open>determineInitiator\<close> is an \<open>async\<close> function: a call runs in pieces, each piece
  without interruption, and the pieces of several calls interleave. A call
  \<^item> runs \<open>acquireLock\<close> up to \<open>await currentLock\<close>: it reads the field \<open>lock\<close> into
    \<open>currentLock\<close>, makes a new promise whose resolver is its local \<open>releaseLock\<close>, and
    stores that promise in \<open>lock\<close>;
  \<^item> is resumed once \<open>currentLock\<close> is resolved: it stores its resolver in the field
    \<open>releaseLock\<close>, and \<open>acquireLock\<close> returns;
  \<^item> is resumed after \<open>await this.acquireLock()\<close>: it runs the critical section, calls
    whatever the field \<open>releaseLock\<close> holds, and returns the verdict.

  Promises are numbered in the order of their creation; \<open>resolved\<close> is the set of the
  resolved ones. The field \<open>releaseLock\<close> holds \<open>None\<close> for the initial \<open>() => {}\<close>, or
  the promise its function resolves.
\<close>

type_synonym promise = nat

datatype task =
  NotCalled
  | AwaitingLock promise promise
  | Acquired
  | Returned initiator

record manager =
  cycle :: billing
  lock :: promise
  releaseLock :: "promise option"
  resolved :: "promise set"
  fresh :: promise
  tasks :: "task list"

text \<open>
  One piece of the call number \<open>i\<close>; \<open>now\<close> is the \<open>Date.now()\<close> of the critical
  section. \<open>None\<close>: the call cannot run (it waits for an unresolved promise, or it has
  returned).
\<close>

definition step :: "nat \<Rightarrow> int \<Rightarrow> manager \<Rightarrow> manager option" where
  "step i now s =
     (if length (tasks s) \<le> i then None
      else case tasks s ! i of
        NotCalled \<Rightarrow>
          Some (s\<lparr>lock := fresh s, fresh := Suc (fresh s),
                  tasks := (tasks s)[i := AwaitingLock (lock s) (fresh s)]\<rparr>)
      | AwaitingLock currentLock release \<Rightarrow>
          if currentLock \<in> resolved s
          then Some (s\<lparr>releaseLock := Some release, tasks := (tasks s)[i := Acquired]\<rparr>)
          else None
      | Acquired \<Rightarrow>
          Some (s\<lparr>cycle := snd (determineInitiator now (cycle s)),
                  resolved := (case releaseLock s of
                                 None \<Rightarrow> resolved s
                               | Some p \<Rightarrow> insert p (resolved s)),
                  tasks := (tasks s)[i := Returned (fst (determineInitiator now (cycle s)))]\<rparr>)
      | Returned v \<Rightarrow> None)"

text \<open>A schedule: which call runs its next piece, and the clock at that moment.\<close>

fun run :: "(nat \<times> int) list \<Rightarrow> manager \<Rightarrow> manager option" where
  "run [] s = Some s"
| "run ((i, now) # sched) s =
     (case step i now s of None \<Rightarrow> None | Some s' \<Rightarrow> run sched s')"

text \<open>
  A manager on which \<open>n0\<close> calls have been made and have all returned (for \<open>n0 = 0\<close>
  the manager as constructed), with billing state \<open>b\<close>, and \<open>N\<close> calls about to be
  made.
\<close>

definition quiescent :: "nat \<Rightarrow> billing \<Rightarrow> nat \<Rightarrow> manager" where
  "quiescent n0 b N =
     \<lparr>cycle = b, lock = n0, releaseLock = (if n0 = 0 then None else Some n0),
      resolved = {..n0}, fresh = Suc n0, tasks = replicate N NotCalled\<rparr>"

fun isReturned :: "task \<Rightarrow> bool" where
  "isReturned (Returned v) = True"
| "isReturned _ = False"

definition verdictCount :: "initiator \<Rightarrow> manager \<Rightarrow> nat" where
  "verdictCount v s = length (filter (\<lambda>t. t = Returned v) (tasks s))"

definition inCriticalSection :: "manager \<Rightarrow> nat" where
  "inCriticalSection s = length (filter (\<lambda>t. t = Acquired) (tasks s))"

text \<open>The pieces a call still has to run.\<close>

fun remaining :: "task \<Rightarrow> nat" where
  "remaining NotCalled = 3"
| "remaining (AwaitingLock c r) = 2"
| "remaining Acquired = 1"
| "remaining (Returned v) = 0"

text \<open>
  The invariant of the lock, for the proofs. The promises made since the manager was
  quiescent are \<open>Suc n0, ..., fresh - 1\<close>; those below \<open>k\<close> are resolved; each of the
  others will be resolved by exactly one call that waits or holds the lock, the holder
  having \<open>k\<close>; and the billing state counts the calls that have returned.
\<close>

definition shape :: "nat \<Rightarrow> nat \<Rightarrow> manager \<Rightarrow> bool" where
  "shape n0 k s \<longleftrightarrow> n0 < k \<and> k \<le> fresh s \<and> resolved s = {..<k} \<and> Suc (lock s) = fresh s"

definition waiting :: "nat \<Rightarrow> nat \<Rightarrow> task list \<Rightarrow> bool" where
  "waiting k f ts \<longleftrightarrow>
     (\<forall>i < length ts. \<forall>c r. ts ! i = AwaitingLock c r \<longrightarrow> Suc c = r \<and> k \<le> r \<and> r < f)"

definition uniqueTickets :: "task list \<Rightarrow> bool" where
  "uniqueTickets ts \<longleftrightarrow>
     (\<forall>i < length ts. \<forall>j < length ts. \<forall>c c' r.
        ts ! i = AwaitingLock c r \<and> ts ! j = AwaitingLock c' r \<longrightarrow> i = j)"

definition holder :: "nat \<Rightarrow> manager \<Rightarrow> bool" where
  "holder k s \<longleftrightarrow>
     (\<forall>i < length (tasks s). tasks s ! i = Acquired
        \<longrightarrow> releaseLock s = Some k \<and> k < fresh s \<and>
            (\<forall>j < length (tasks s). tasks s ! j = Acquired \<longrightarrow> j = i) \<and>
            (\<forall>j < length (tasks s). \<forall>c. tasks s ! j \<noteq> AwaitingLock c k))"

definition covered :: "nat \<Rightarrow> nat \<Rightarrow> task list \<Rightarrow> bool" where
  "covered k f ts \<longleftrightarrow>
     (\<forall>p. k \<le> p \<and> p < f
        \<longrightarrow> (\<exists>j < length ts. (\<exists>c. ts ! j = AwaitingLock c p) \<or> (p = k \<and> ts ! j = Acquired)))"

definition accounted :: "nat \<Rightarrow> billing \<Rightarrow> nat \<Rightarrow> manager \<Rightarrow> bool" where
  "accounted n0 b k s \<longleftrightarrow>
     length (filter isReturned (tasks s)) = k - Suc n0 \<and>
     (if k = Suc n0
      then cycle s = b \<and> verdictCount User s = 0 \<and> verdictCount Agent s = 0
      else inCycle (cycle s) \<and> pendingResponses (cycle s) = int (k - Suc n0) \<and>
           verdictCount User s = 1 \<and> verdictCount Agent s = k - Suc n0 - 1)"

definition chained :: "nat \<Rightarrow> billing \<Rightarrow> nat \<Rightarrow> manager \<Rightarrow> bool" where
  "chained n0 b k s \<longleftrightarrow>
     shape n0 k s \<and> waiting k (fresh s) (tasks s) \<and> uniqueTickets (tasks s) \<and> holder k s \<and>
     covered k (fresh s) (tasks s) \<and> accounted n0 b k s"

section \<open>API key authentication\<close>

text \<open>
  The middleware \<open>apiKeyAuth\<close> of \<open>lib/api-key-auth.ts\<close>. A header that is absent
  reads as \<open>undefined\<close>, here \<open>None\<close>. The middleware either calls \<open>next()\<close> or
  throws an \<open>HTTPException\<close> with a status and a message.
\<close>

record headers =
  Authorization :: "string option"
  X_API_Key :: "string option"

datatype auth_outcome = CallNext | HTTPException nat string

text \<open>JavaScript truthiness of a \<open>string | undefined\<close>: defined and not empty.\<close>

definition truthy :: "string option \<Rightarrow> bool" where
  "truthy v = (case v of None \<Rightarrow> False | Some x \<Rightarrow> x \<noteq> [])"

text \<open>\<open>authHeader?.startsWith("Bearer ")\<close>; \<open>undefined\<close> is falsy.\<close>

definition startsWithBearer :: "string option \<Rightarrow> bool" where
  "startsWithBearer v = (case v of None \<Rightarrow> False | Some a \<Rightarrow> take 7 a = ''Bearer '')"

definition providedKey :: "headers \<Rightarrow> string option" where
  "providedKey h =
     (if startsWithBearer (Authorization h) then map_option (drop 7) (Authorization h)
      else if truthy (X_API_Key h) then X_API_Key h
      else None)"

definition apiKeyAuth :: "string option \<Rightarrow> headers \<Rightarrow> auth_outcome" where
  "apiKeyAuth apiKey h =
     (if \<not> truthy apiKey then CallNext
      else if \<not> truthy (providedKey h) \<or> providedKey h \<noteq> apiKey
           then HTTPException 401 ''Invalid or missing API key''
           else CallNext)"

section \<open>SSE heartbeat\<close>

text \<open>
  \<open>lib/sse-heartbeat\<close>. The configuration is read from the process environment.
  \<open>Number(process.env.X)\<close> is a JavaScript built-in; the model starts from its value:
  \<open>NaN\<close> (the variable is unset or not numeric) or an integer number of milliseconds.
  \<open>Number("0")\<close> is \<open>0\<close>.
\<close>

datatype js_number = NaN | Num int

record process_env =
  SSE_HEARTBEAT_INTERVAL :: js_number
  SSE_HEARTBEAT_ENABLED :: "string option"
  SSE_MAX_CONNECTION_DURATION :: js_number

text \<open>\<open>v || d\<close> on numbers: \<open>NaN\<close> and \<open>0\<close> are falsy.\<close>

definition orDefault :: "js_number \<Rightarrow> int \<Rightarrow> int" where
  "orDefault v d = (case v of NaN \<Rightarrow> d | Num n \<Rightarrow> if n = 0 then d else n)"

record SSEHeartbeatConfig =
  interval :: int
  enabled :: bool
  maxConnectionDuration :: int

definition DEFAULT_HEARTBEAT_CONFIG :: "process_env \<Rightarrow> SSEHeartbeatConfig" where
  "DEFAULT_HEARTBEAT_CONFIG env =
     \<lparr>interval = orDefault (SSE_HEARTBEAT_INTERVAL env) 2000,
      enabled = (SSE_HEARTBEAT_ENABLED env \<noteq> Some ''false''),
      maxConnectionDuration = orDefault (SSE_MAX_CONNECTION_DURATION env) 600000\<rparr>"

text \<open>\<open>Partial<SSEHeartbeatConfig>\<close>: each field present or not.\<close>

record partialConfig =
  interval_opt :: "int option"
  enabled_opt :: "bool option"
  maxConnectionDuration_opt :: "int option"

definition noConfig :: partialConfig where
  "noConfig = \<lparr>interval_opt = None, enabled_opt = None, maxConnectionDuration_opt = None\<rparr>"

text \<open>The spread \<open>{ ...DEFAULT_HEARTBEAT_CONFIG, ...config }\<close>.\<close>

definition spread :: "SSEHeartbeatConfig \<Rightarrow> partialConfig \<Rightarrow> SSEHeartbeatConfig" where
  "spread d c =
     \<lparr>interval = (case interval_opt c of None \<Rightarrow> interval d | Some v \<Rightarrow> v),
      enabled = (case enabled_opt c of None \<Rightarrow> enabled d | Some v \<Rightarrow> v),
      maxConnectionDuration =
        (case maxConnectionDuration_opt c of None \<Rightarrow> maxConnectionDuration d | Some v \<Rightarrow> v)\<rparr>"

text \<open>
  The manager. \<open>timer\<close> is whether the interval timer is armed. \<open>maxDurationCalls\<close>
  counts the invocations of the callback \<open>onMaxDuration\<close> handed to \<open>start\<close>.
\<close>

record heartbeat =
  timer :: bool
  heartbeatCount :: nat
  startTime :: int
  config :: SSEHeartbeatConfig
  maxDurationCalls :: nat

definition createHeartbeatManager :: "process_env \<Rightarrow> partialConfig \<Rightarrow> heartbeat" where
  "createHeartbeatManager env c =
     \<lparr>timer = False, heartbeatCount = 0, startTime = 0,
      config = spread (DEFAULT_HEARTBEAT_CONFIG env) c, maxDurationCalls = 0\<rparr>"

definition start :: "int \<Rightarrow> heartbeat \<Rightarrow> heartbeat" where
  "start now hb =
     (if \<not> enabled (config hb) then hb
      else hb\<lparr>startTime := now, heartbeatCount := 0, timer := True\<rparr>)"

definition stop :: "heartbeat \<Rightarrow> heartbeat" where
  "stop hb = (if timer hb then hb\<lparr>timer := False\<rparr> else hb)"

text \<open>
  One run of the interval callback. \<open>written\<close> tells whether \<open>stream.write\<close> resolved
  (a rejected write is caught and logged, and the duration check is skipped); \<open>now\<close> is
  the \<open>Date.now()\<close> of the duration check.
\<close>

definition tick :: "bool \<Rightarrow> int \<Rightarrow> heartbeat \<Rightarrow> heartbeat" where
  "tick written now hb =
     (let hb1 = hb\<lparr>heartbeatCount := heartbeatCount hb + 1\<rparr>
      in if \<not> written then hb1
         else if maxConnectionDuration (config hb1) > 0
                 \<and> now - startTime hb1 > maxConnectionDuration (config hb1)
              then (stop hb1)\<lparr>maxDurationCalls := maxDurationCalls hb1 + 1\<rparr>
              else hb1)"

text \<open>The timer fires at the given moments; it fires only while it is armed.\<close>

fun ticks :: "(bool \<times> int) list \<Rightarrow> heartbeat \<Rightarrow> heartbeat" where
  "ticks [] hb = hb"
| "ticks ((written, now) # ts) hb = ticks ts (if timer hb then tick written now hb else hb)"

section \<open>Request handlers\<close>

text \<open>
  The two functions \<open>handleCompletion\<close> of \<open>routes/chat-completions/handler.ts\<close> and
  \<open>routes/messages/handler.ts\<close>. A thrown value is a \<open>js_error\<close>. The value returned by
  \<open>createChatCompletions\<close> is seen through what the handlers do with it: they test an
  own property (\<open>Object.hasOwn\<close>) and iterate it with \<open>for await\<close>; a value that is not
  async-iterable has \<open>frames = None\<close>, and each pull of an iterable one yields a frame
  or throws.
\<close>

datatype js_error = Error string

datatype 'f pull = Yield 'f | Throws js_error

record 'f backend_value =
  ownProperties :: "string list"
  frames :: "'f pull list option"

definition isNonStreaming :: "'f backend_value \<Rightarrow> bool" where
  "isNonStreaming response \<longleftrightarrow> ''choices'' \<in> set (ownProperties response)"

text \<open>
  What a handler does to its collaborators, in order: the heartbeat session, the SSE
  writes, and the two hooks of the billing cycle manager.
\<close>

datatype 'm effect =
  HeartbeatStart | WriteSSE 'm | MarkResponseComplete | MarkRequestFailed | HeartbeatStop

text \<open>
  The surroundings of one streamed reply: the process environment of the heartbeat
  defaults, the readings of \<open>Date.now()\<close>, the runs of the heartbeat timer during the
  stream, and the outcome of each \<open>stream.writeSSE\<close> (by the number of messages written
  before it and the message).
\<close>

record 'm stream_env =
  procEnv :: process_env
  startedAt :: int
  beats :: "(bool \<times> int) list"
  finishedAt :: int
  writeSSE :: "nat \<Rightarrow> 'm \<Rightarrow> js_error option"

datatype 'j reply = Thrown js_error | JsonReply 'j | StreamReply "js_error option"

record ('j, 'm) handled =
  reply :: "'j reply"
  billingAfter :: billing
  effects :: "'m effect list"
  heartbeatAfter :: "heartbeat option"

text \<open>
  The \<open>try\<close>/\<open>catch\<close>/\<open>finally\<close> around the streaming loop, the same in both handlers.
  \<open>loop\<close> is what the loop wrote and the error that ended it, if any.
\<close>

definition streamCallback ::
  "'m stream_env \<Rightarrow> 'm list \<times> js_error option \<Rightarrow> billing \<Rightarrow> ('j, 'm) handled" where
  "streamCallback env loop b =
     (let hb = start (startedAt env) (createHeartbeatManager (procEnv env) noConfig);
          hb' = stop (ticks (beats env) hb)
      in case snd loop of
           None \<Rightarrow>
             \<lparr>reply = StreamReply None,
              billingAfter = markResponseComplete (finishedAt env) b,
              effects = HeartbeatStart # map WriteSSE (fst loop) @ [MarkResponseComplete, HeartbeatStop],
              heartbeatAfter = Some hb'\<rparr>
         | Some e \<Rightarrow>
             \<lparr>reply = StreamReply (Some e),
              billingAfter = markRequestFailed b,
              effects = HeartbeatStart # map WriteSSE (fst loop) @ [MarkRequestFailed, HeartbeatStop],
              heartbeatAfter = Some hb'\<rparr>)"

text \<open>\<open>for await (const chunk of response) await stream.writeSSE(chunk)\<close>.\<close>

fun forwardChunks ::
  "(nat \<Rightarrow> 'm \<Rightarrow> js_error option) \<Rightarrow> 'm pull list \<Rightarrow> 'm list \<Rightarrow> 'm list \<times> js_error option" where
  "forwardChunks w [] out = (out, None)"
| "forwardChunks w (Throws e # ps) out = (out, Some e)"
| "forwardChunks w (Yield c # ps) out =
     (case w (length out) c of
        Some e \<Rightarrow> (out, Some e)
      | None \<Rightarrow> forwardChunks w ps (out @ [c]))"

definition notIterable :: js_error where
  "notIterable = Error ''TypeError: response is not async iterable''"

definition chatLoop :: "'m stream_env \<Rightarrow> 'm backend_value \<Rightarrow> 'm list \<times> js_error option" where
  "chatLoop env response =
     (case frames response of
        None \<Rightarrow> ([], Some notIterable)
      | Some ps \<Rightarrow> forwardChunks (writeSSE env) ps [])"

text \<open>
  The handler of the native protocol. \<open>dispatch\<close> stands for the handler up to and
  including \<open>await createChatCompletions(payload)\<close>: the rate limit, the request body,
  the approval and the backend call, which throw or return the backend's value, and
  which may change the billing state (\<open>createChatCompletions\<close> is not part of the
  sources at hand).
\<close>

definition handleCompletion_chat ::
  "'m stream_env \<Rightarrow> (billing \<Rightarrow> (js_error + 'm backend_value) \<times> billing) \<Rightarrow> billing
     \<Rightarrow> ('m backend_value, 'm) handled" where
  "handleCompletion_chat env dispatch b =
     (case dispatch b of
        (Inl e, b1) \<Rightarrow>
          \<lparr>reply = Thrown e, billingAfter = b1, effects = [], heartbeatAfter = None\<rparr>
      | (Inr response, b1) \<Rightarrow>
          if isNonStreaming response
          then \<lparr>reply = JsonReply response, billingAfter = b1, effects = [], heartbeatAfter = None\<rparr>
          else streamCallback env (chatLoop env response) b1)"

text \<open>
  The handler of the Messages protocol. Its frames are raw events with a \<open>data\<close> field
  (a string or \<open>undefined\<close>). \<open>JSON.parse\<close>, \<open>translateChunkToAnthropicEvents\<close> and
  \<open>translateToAnthropic\<close> are parameters: the translators are not part of the sources
  at hand. The stream state is the object literal of the handler; its \<open>toolCalls\<close>, an
  object keyed by the index of a tool call, is a list of keys and values.
\<close>

record 't AnthropicStreamState =
  messageStartSent :: bool
  contentBlockIndex :: nat
  contentBlockOpen :: bool
  toolCalls :: "(nat \<times> 't) list"

definition newStreamState :: "'t AnthropicStreamState" where
  "newStreamState =
     \<lparr>messageStartSent = False, contentBlockIndex = 0, contentBlockOpen = False,
      toolCalls = []\<rparr>"

record ('k, 'ev, 't, 'f, 'j) translators =
  parseJSON :: "string \<Rightarrow> js_error + 'k"
  translateChunkToAnthropicEvents ::
    "'k \<Rightarrow> 't AnthropicStreamState \<Rightarrow> js_error + ('ev list \<times> 't AnthropicStreamState)"
  translateToAnthropic :: "'f backend_value \<Rightarrow> js_error + 'j"

text \<open>The inner loop \<open>for (const event of events) await stream.writeSSE(...)\<close>.\<close>

fun writeEvents ::
  "(nat \<Rightarrow> 'm \<Rightarrow> js_error option) \<Rightarrow> 'm list \<Rightarrow> 'm list \<Rightarrow> 'm list \<times> js_error option" where
  "writeEvents w [] out = (out, None)"
| "writeEvents w (ev # evs) out =
     (case w (length out) ev of
        Some e \<Rightarrow> (out, Some e)
      | None \<Rightarrow> writeEvents w evs (out @ [ev]))"

text \<open>
  The outer loop: \<open>[DONE]\<close> breaks, a missing or empty \<open>data\<close> continues, anything else
  is parsed, translated and written.
\<close>

fun translateFrames ::
  "(nat \<Rightarrow> 'ev \<Rightarrow> js_error option) \<Rightarrow> ('k, 'ev, 't, 'f, 'j) translators
     \<Rightarrow> string option pull list \<Rightarrow> 't AnthropicStreamState \<Rightarrow> 'ev list
     \<Rightarrow> 'ev list \<times> js_error option" where
  "translateFrames w tr [] st out = (out, None)"
| "translateFrames w tr (Throws e # ps) st out = (out, Some e)"
| "translateFrames w tr (Yield None # ps) st out = translateFrames w tr ps st out"
| "translateFrames w tr (Yield (Some d) # ps) st out =
     (if d = ''[DONE]'' then (out, None)
      else if d = [] then translateFrames w tr ps st out
      else case parseJSON tr d of
             Inl e \<Rightarrow> (out, Some e)
           | Inr chunk \<Rightarrow>
               (case translateChunkToAnthropicEvents tr chunk st of
                  Inl e \<Rightarrow> (out, Some e)
                | Inr (events, st') \<Rightarrow>
                    (case writeEvents w events out of
                       (out', Some e) \<Rightarrow> (out', Some e)
                     | (out', None) \<Rightarrow> translateFrames w tr ps st' out')))"

definition messagesLoop ::
  "'ev stream_env \<Rightarrow> ('k, 'ev, 't, string option, 'j) translators
     \<Rightarrow> string option backend_value \<Rightarrow> 'ev list \<times> js_error option" where
  "messagesLoop env tr response =
     (case frames response of
        None \<Rightarrow> ([], Some notIterable)
      | Some ps \<Rightarrow> translateFrames (writeSSE env) tr ps newStreamState [])"

definition handleCompletion_messages ::
  "'ev stream_env \<Rightarrow> ('k, 'ev, 't, string option, 'j) translators
     \<Rightarrow> (billing \<Rightarrow> (js_error + string option backend_value) \<times> billing) \<Rightarrow> billing
     \<Rightarrow> ('j, 'ev) handled" where
  "handleCompletion_messages env tr dispatch b =
     (case dispatch b of
        (Inl e, b1) \<Rightarrow>
          \<lparr>reply = Thrown e, billingAfter = b1, effects = [], heartbeatAfter = None\<rparr>
      | (Inr response, b1) \<Rightarrow>
          if isNonStreaming response
          then (case translateToAnthropic tr response of
                  Inl e \<Rightarrow>
                    \<lparr>reply = Thrown e, billingAfter = b1, effects = [], heartbeatAfter = None\<rparr>
                | Inr anthropicResponse \<Rightarrow>
                    \<lparr>reply = JsonReply anthropicResponse, billingAfter = b1, effects = [],
                     heartbeatAfter = None\<rparr>)
          else streamCallback env (messagesLoop env tr response) b1)"

text \<open>
  What the claims about the streaming path speak of, apart from the loops of the
  handlers. The writes of a list of messages are accepted when none of them throws, the
  first being write number \<open>n\<close> of the stream.
\<close>

fun accepted :: "(nat \<Rightarrow> 'm \<Rightarrow> js_error option) \<Rightarrow> nat \<Rightarrow> 'm list \<Rightarrow> bool" where
  "accepted w n [] = True"
| "accepted w n (m # ms) = (w n m = None \<and> accepted w (Suc n) ms)"

text \<open>
  The events that a run of raw frames translates to, with the state after it, when the
  run holds no \<open>[DONE]\<close> and each frame with data parses and translates; \<open>None\<close>
  otherwise. Nothing is written and no hook is called here.
\<close>

fun translated ::
  "('k, 'ev, 't, 'f, 'j) translators \<Rightarrow> string option list \<Rightarrow> 't AnthropicStreamState
     \<Rightarrow> ('ev list \<times> 't AnthropicStreamState) option" where
  "translated tr [] st = Some ([], st)"
| "translated tr (None # ds) st = translated tr ds st"
| "translated tr (Some d # ds) st =
     (if d = ''[DONE]'' then None
      else if d = [] then translated tr ds st
      else case parseJSON tr d of
             Inl e \<Rightarrow> None
           | Inr chunk \<Rightarrow>
               (case translateChunkToAnthropicEvents tr chunk st of
                  Inl e \<Rightarrow> None
                | Inr (events, st') \<Rightarrow>
                    (case translated tr ds st' of
                       None \<Rightarrow> None
                     | Some (events', st'') \<Rightarrow> Some (events @ events', st''))))"

text \<open>
  The two ends of a streamed reply. It completes: the messages are written,
  \<open>markResponseComplete\<close> is called once and \<open>markRequestFailed\<close> is not, the callback
  returns. It fails with an error: the messages are written, \<open>markRequestFailed\<close> is
  called once and \<open>markResponseComplete\<close> is not, the callback throws that error. In
  both, the heartbeat session is started first and stopped last, and its timer ends
  disarmed.
\<close>

definition completes :: "'m stream_env \<Rightarrow> billing \<Rightarrow> 'm list \<Rightarrow> ('j, 'm) handled \<Rightarrow> bool" where
  "completes env b written r \<longleftrightarrow>
     reply r = StreamReply None \<and>
     billingAfter r = markResponseComplete (finishedAt env) b \<and>
     effects r = HeartbeatStart # map WriteSSE written @ [MarkResponseComplete, HeartbeatStop] \<and>
     map_option timer (heartbeatAfter r) = Some False"

definition failsWith :: "js_error \<Rightarrow> billing \<Rightarrow> 'm list \<Rightarrow> ('j, 'm) handled \<Rightarrow> bool" where
  "failsWith e b written r \<longleftrightarrow>
     reply r = StreamReply (Some e) \<and>
     billingAfter r = markRequestFailed b \<and>
     effects r = HeartbeatStart # map WriteSSE written @ [MarkRequestFailed, HeartbeatStop] \<and>
     map_option timer (heartbeatAfter r) = Some False"

section \<open>Streaming translation\<close>

text \<open>
  The stateful translator \<open>translateChunkToAnthropicEvents\<close> lives in
  \<open>routes/messages/stream-translation\<close>, which is not among the sources at hand; the
  handler above takes it as a parameter. This section models it from the specification
  (sections 3, 4.3 and 8), rule by rule, on the stream state that the handler builds
  and hands to it, and feeds it every frame, as the loop of the handler does.
\<close>

datatype block_kind = TextBlock | ToolUseBlock

datatype finish_reason = FinishStop | FinishLength | FinishToolCalls

datatype stop_reason = end_turn | max_tokens | tool_use

record usage =
  inputTokens :: nat
  outputTokens :: nat

record tool_fragment =
  callIndex :: nat
  toolName :: "string option"
  argumentText :: "string option"

record frame =
  textFragment :: "string option"
  toolFragment :: "tool_fragment option"
  finishReason :: "finish_reason option"
  frameUsage :: "usage option"

text \<open>
  Modelled from the spec: the values of \<open>toolCalls\<close>, whose type is declared in the
  missing \<open>anthropic-types\<close>. The specification gives a tool-call accumulator a name and
  a buffered argument text. The state of the handler has no field for the kind of the
  open block, so the accumulator also keeps the index of its block: a tool-use block is
  open when a block is open at the index of an accumulator.
\<close>

record tool_accumulator =
  accumulatedName :: "string option"
  bufferedArgumentText :: string
  accumulatorBlock :: nat

type_synonym stream_state = "tool_accumulator AnthropicStreamState"

datatype delta = text_delta string | input_json_delta string

datatype event =
  message_start
  | content_block_start block_kind nat "string option"
  | content_block_delta delta
  | content_block_stop
  | message_delta stop_reason "usage option"
  | message_stop

text \<open>
  Modelled from the spec: the finish-reason mapping of the missing translators,
  "length-limit to \<open>max_tokens\<close>, tool invocation to \<open>tool_use\<close>, normal stop to
  \<open>end_turn\<close>".
\<close>

fun mapStopReason :: "finish_reason \<Rightarrow> stop_reason" where
  "mapStopReason FinishLength = max_tokens"
| "mapStopReason FinishToolCalls = tool_use"
| "mapStopReason FinishStop = end_turn"

definition toolBlockOpen :: "stream_state \<Rightarrow> bool" where
  "toolBlockOpen st \<longleftrightarrow>
     contentBlockOpen st \<and>
     contentBlockIndex st \<in> set (map (\<lambda>(i, acc). accumulatorBlock acc) (toolCalls st))"

text \<open>
  Modelled from the spec: closing and opening a block in the missing translator. A block
  "ends with exactly one \<open>content_block_stop\<close>", and the next block has the next
  index; a block "begins with exactly one \<open>content_block_start\<close>".
\<close>

definition closeBlock :: "stream_state \<Rightarrow> event list \<times> stream_state" where
  "closeBlock st =
     (if contentBlockOpen st
      then ([content_block_stop],
            st\<lparr>contentBlockOpen := False, contentBlockIndex := Suc (contentBlockIndex st)\<rparr>)
      else ([], st))"

definition openBlock ::
  "block_kind \<Rightarrow> string option \<Rightarrow> stream_state \<Rightarrow> event list \<times> stream_state" where
  "openBlock kind name st =
     ([content_block_start kind (contentBlockIndex st) name], st\<lparr>contentBlockOpen := True\<rparr>)"

text \<open>
  Modelled from the spec: the text rule of the missing translator. "A text fragment while
  a tool-call block is open forces a stop of the current block before the new one
  starts"; the text goes out as a \<open>content_block_delta\<close> of the open text block.
\<close>

definition translateText :: "string \<Rightarrow> stream_state \<Rightarrow> event list \<times> stream_state" where
  "translateText t st =
     (let (es1, st1) = (if toolBlockOpen st then closeBlock st else ([], st));
          (es2, st2) = (if \<not> contentBlockOpen st1 then openBlock TextBlock None st1 else ([], st1))
      in (es1 @ es2 @ [content_block_delta (text_delta t)], st2))"

text \<open>
  Modelled from the spec: the tool-call rule of the missing translator. "A fragment for a
  previously unseen tool-call index opens a new tool-use block (name taken from that
  fragment)", after the stop of the block that is open, if any; "subsequent fragments
  for the same index append to a buffered argument string emitted as successive
  \<open>content_block_delta\<close> events carrying incremental JSON text".
\<close>

definition bufferArgument :: "nat \<Rightarrow> string \<Rightarrow> stream_state \<Rightarrow> stream_state" where
  "bufferArgument i a st =
     st\<lparr>toolCalls :=
          map (\<lambda>(j, acc).
                 if j = i then (j, acc\<lparr>bufferedArgumentText := bufferedArgumentText acc @ a\<rparr>)
                 else (j, acc))
            (toolCalls st)\<rparr>"

definition translateToolFragment ::
  "tool_fragment \<Rightarrow> stream_state \<Rightarrow> event list \<times> stream_state" where
  "translateToolFragment tf st =
     (let (es1, st1) =
            (case map_of (toolCalls st) (callIndex tf) of
               Some acc \<Rightarrow> ([], st)
             | None \<Rightarrow>
                 (let (esc, stc) = closeBlock st;
                      (eso, sto) = openBlock ToolUseBlock (toolName tf) stc
                  in (esc @ eso,
                      sto\<lparr>toolCalls :=
                            toolCalls sto @
                            [(callIndex tf,
                              \<lparr>accumulatedName = toolName tf, bufferedArgumentText = [],
                               accumulatorBlock = contentBlockIndex sto\<rparr>)]\<rparr>)))
      in case argumentText tf of
           None \<Rightarrow> (es1, st1)
         | Some a \<Rightarrow>
             (es1 @ [content_block_delta (input_json_delta a)], bufferArgument (callIndex tf) a st1))"

text \<open>
  Modelled from the spec: the terminal rule of the missing translator. "The terminal
  frame forces closure of any still-open block, then emits exactly one \<open>message_delta\<close>
  (carrying the mapped stop reason and final usage) and exactly one \<open>message_stop\<close>".
  The state of the handler has no field for a running total of usage; the usage is
  that of the terminal frame.
\<close>

definition translateFinish ::
  "finish_reason \<Rightarrow> usage option \<Rightarrow> stream_state \<Rightarrow> event list \<times> stream_state" where
  "translateFinish r u st =
     (let (es1, st1) = closeBlock st
      in (es1 @ [message_delta (mapStopReason r) u, message_stop], st1))"

text \<open>
  Modelled from the spec: one frame through the missing translator. \<open>message_start\<close> is
  "emitted on the first frame of the stream, before any other event"; then come the text
  fragment, the tool-call fragment and the finish reason, each if present. "A frame with
  no text and no tool fragment produces zero output events" of its own.
\<close>

definition translateFrame :: "frame \<Rightarrow> stream_state \<Rightarrow> event list \<times> stream_state" where
  "translateFrame f st =
     (let (es0, st0) =
            (if messageStartSent st then ([], st)
             else ([message_start], st\<lparr>messageStartSent := True\<rparr>));
          (es1, st1) = (case textFragment f of None \<Rightarrow> ([], st0) | Some t \<Rightarrow> translateText t st0);
          (es2, st2) =
            (case toolFragment f of None \<Rightarrow> ([], st1) | Some tf \<Rightarrow> translateToolFragment tf st1);
          (es3, st3) =
            (case finishReason f of
               None \<Rightarrow> ([], st2)
             | Some r \<Rightarrow> translateFinish r (frameUsage f) st2)
      in (es0 @ es1 @ es2 @ es3, st3))"

text \<open>
  A stream: the loop of the handler hands every frame to the translator, with the one
  state it built before the loop, and writes the events in order.
\<close>

fun translateAll :: "frame list \<Rightarrow> stream_state \<Rightarrow> event list \<times> stream_state" where
  "translateAll [] st = ([], st)"
| "translateAll (f # fs) st =
     (let (es, st1) = translateFrame f st;
          (es', st2) = translateAll fs st1
      in (es @ es', st2))"

definition translateStream :: "frame list \<Rightarrow> event list" where
  "translateStream fs = fst (translateAll fs newStreamState)"

text \<open>
  The block structure of an event sequence: \<open>blockTrack\<close> follows the starts and stops,
  from "no block open" or "a block open", and fails on a start while a block is open and
  on a stop while none is. A sequence is properly nested when the run from "no block
  open" ends with no block open.
\<close>

fun isBlockStart :: "event \<Rightarrow> bool" where
  "isBlockStart (content_block_start k i n) = True"
| "isBlockStart _ = False"

fun blockTrack :: "bool \<Rightarrow> event list \<Rightarrow> bool option" where
  "blockTrack opn [] = Some opn"
| "blockTrack opn (e # es) =
     (if isBlockStart e then (if opn then None else blockTrack True es)
      else if e = content_block_stop then (if opn then blockTrack False es else None)
      else blockTrack opn es)"

definition properlyNested :: "event list \<Rightarrow> bool" where
  "properlyNested es \<longleftrightarrow> blockTrack False es = Some False"

text \<open>
  For the proofs: a piece of the translation is steady when it follows the block
  discipline, emits neither \<open>message_start\<close> nor \<open>message_stop\<close>, and leaves
  \<open>messageStartSent\<close> as it is.
\<close>

definition steady :: "stream_state \<Rightarrow> event list \<times> stream_state \<Rightarrow> bool" where
  "steady st r \<longleftrightarrow>
     blockTrack (contentBlockOpen st) (fst r) = Some (contentBlockOpen (snd r)) \<and>
     message_start \<notin> set (fst r) \<and> message_stop \<notin> set (fst r) \<and>
     messageStartSent (snd r) = messageStartSent st"

text \<open>Frames as the scenarios of the specification write them.\<close>

definition roleFrame :: frame where
  "roleFrame = \<lparr>textFragment = None, toolFragment = None, finishReason = None, frameUsage = None\<rparr>"

definition textFrame :: "string \<Rightarrow> frame" where
  "textFrame t = roleFrame\<lparr>textFragment := Some t\<rparr>"

definition toolFrame :: "nat \<Rightarrow> string option \<Rightarrow> string option \<Rightarrow> frame" where
  "toolFrame i n a =
     roleFrame\<lparr>toolFragment := Some \<lparr>callIndex = i, toolName = n, argumentText = a\<rparr>\<rparr>"

definition terminalFrame :: "finish_reason \<Rightarrow> frame" where
  "terminalFrame r = roleFrame\<lparr>finishReason := Some r\<rparr>"

text \<open>
  Sample surroundings for concrete runs of the handlers: no environment variable set, no
  timer run, every write accepted, or every write but the second; a backend call that
  first takes its verdict from the billing cycle manager and then returns a given value.
\<close>

definition sampleEnv :: "'m stream_env" where
  "sampleEnv =
     \<lparr>procEnv = \<lparr>SSE_HEARTBEAT_INTERVAL = NaN, SSE_HEARTBEAT_ENABLED = None,
        SSE_MAX_CONNECTION_DURATION = NaN\<rparr>,
      startedAt = 1000, beats = [], finishedAt = 5000, writeSSE = (\<lambda>n m. None)\<rparr>"

definition brokenPipe :: "'m stream_env" where
  "brokenPipe = sampleEnv\<lparr>writeSSE := (\<lambda>n m. if n = 1 then Some (Error ''closed'') else None)\<rparr>"

definition returning :: "'f backend_value \<Rightarrow> billing \<Rightarrow> (js_error + 'f backend_value) \<times> billing" where
  "returning v b = (Inr v, snd (determineInitiator 1000 b))"

definition completeResponse :: "'f backend_value" where
  "completeResponse = \<lparr>ownProperties = [''id'', ''choices''], frames = None\<rparr>"

definition frameSequence :: "'f pull list \<Rightarrow> 'f backend_value" where
  "frameSequence ps = \<lparr>ownProperties = [], frames = Some ps\<rparr>"

text \<open>
  Two chunks of the backend as JSON texts, and a text that is not JSON. The sample parser
  stands for \<open>JSON.parse\<close> on these three data: it yields the frames of the two chunks
  and throws on anything else. The sample translators take the translator of the
  section above, or one that throws.
\<close>

definition hiChunk :: string where
  \<open>hiChunk = ''{"choices":[{"index":0,"delta":{"content":"Hi"},"finish_reason":null}]}''\<close>

definition stopChunk :: string where
  \<open>stopChunk = ''{"choices":[{"index":0,"delta":{},"finish_reason":"stop"}]}''\<close>

definition notJSON :: string where
  "notJSON = ''<html>''"

definition sampleTranslators ::
  "(frame, event, tool_accumulator, 'f, string list) translators" where
  "sampleTranslators =
     \<lparr>parseJSON =
        (\<lambda>d. if d = hiChunk then Inr (textFrame ''Hi'')
             else if d = stopChunk then Inr (terminalFrame FinishStop)
             else Inl (Error ''SyntaxError'')),
      translateChunkToAnthropicEvents = (\<lambda>chunk st. Inr (translateFrame chunk st)),
      translateToAnthropic = (\<lambda>v. Inr (ownProperties v))\<rparr>"

definition throwingTranslators ::
  "(frame, event, tool_accumulator, 'f, string list) translators" where
  "throwingTranslators =
     sampleTranslators\<lparr>translateChunkToAnthropicEvents := (\<lambda>chunk st. Inl (Error ''TypeError''))\<rparr>"

section \<open>Properties of the billing cycle manager\<close>

lemmas billing_defs =
  CYCLE_TIMEOUT_MS_def timedOut_def expireCheck_def decide_def determineInitiator_def
  markResponseComplete_def markRequestFailed_def reset_def initial_def

lemma perform_nonneg: "0 \<le> pendingResponses b \<Longrightarrow> 0 \<le> pendingResponses (perform c b)"
  by (cases c) (auto simp: billing_defs Let_def)

lemma performAll_nonneg:
  "0 \<le> pendingResponses b \<Longrightarrow> 0 \<le> pendingResponses (performAll cs b)"
  by (induction cs arbitrary: b) (auto intro: perform_nonneg)

text \<open>
  Claim C8. After any sequence of calls of \<open>determineInitiator\<close>,
  \<open>markResponseComplete\<close>, \<open>markRequestFailed\<close> and \<open>reset\<close> from the initial idle
  state, \<open>pendingResponses\<close> is not negative; and if the timeout check of a following
  \<open>determineInitiator\<close> turns \<open>inCycle\<close> from true to false, it does so in a state whose
  \<open>pendingResponses\<close> is 0.
\<close>

theorem pending_nonneg_and_expiry_idle:
  "0 \<le> pendingResponses (performAll cs initial) \<and>
   (inCycle (performAll cs initial) \<and> \<not> inCycle (expireCheck now (performAll cs initial))
      \<longrightarrow> pendingResponses (performAll cs initial) = 0)"
proof
  show "0 \<le> pendingResponses (performAll cs initial)"
    by (rule performAll_nonneg) (simp add: initial_def)
next
  show "inCycle (performAll cs initial) \<and> \<not> inCycle (expireCheck now (performAll cs initial))
      \<longrightarrow> pendingResponses (performAll cs initial) = 0"
    by (auto simp: expireCheck_def timedOut_def split: if_splits)
qed

theorem pending_nonneg_and_expiry_idle_witness:
  "inCycle (performAll [Determine 1000, Complete 2000] initial) \<and>
   \<not> inCycle (expireCheck 400000 (performAll [Determine 1000, Complete 2000] initial)) \<and>
   pendingResponses (performAll [Determine 1000, Complete 2000] initial) = 0"
  using pending_nonneg_and_expiry_idle [of "[Determine 1000, Complete 2000]" 400000]
  by (simp add: billing_defs)









text \<open>
  \<open>lastResponseTime\<close> is not cleared when a later cycle opens: the first request of a
  cycle opened by the timeout, failing before any completion in that cycle, leaves the
  cycle open.
\<close>

lemma later_cycle_first_failure_stays_open:
  "fst (determineInitiator 400000 (performAll [Determine 1000, Complete 2000] initial)) = User \<and>
   inCycle (performAll [Determine 1000, Complete 2000, Determine 400000, Failed] initial)"
  by (simp add: billing_defs Let_def)

text \<open>
  Claim C3, as the code has it. After a \<open>User\<close> verdict followed by
  \<open>markResponseComplete\<close>, a call of \<open>determineInitiator\<close> less than five minutes after
  that completion returns \<open>Agent\<close>. When no response is pending and more than five
  minutes have passed since the last response, \<open>determineInitiator\<close> returns \<open>User\<close>.
  While a response is pending in an open cycle, \<open>determineInitiator\<close> returns \<open>Agent\<close>
  whatever the time, and the cycle stays open.
\<close>

theorem cycle_timeout:
  "(fst (determineInitiator t0 b) = User \<and> t2 - t1 < CYCLE_TIMEOUT_MS
      \<longrightarrow> fst (determineInitiator t2 (markResponseComplete t1 (snd (determineInitiator t0 b)))) = Agent)
   \<and>
   (pendingResponses b = 0 \<and> now - lastResponseTime b > CYCLE_TIMEOUT_MS
      \<longrightarrow> fst (determineInitiator now b) = User)
   \<and>
   (inCycle b \<and> pendingResponses b \<noteq> 0
      \<longrightarrow> fst (determineInitiator now b) = Agent \<and> inCycle (snd (determineInitiator now b)))"
  by (auto simp: billing_defs Let_def split: if_splits)

theorem cycle_timeout_witness:
  "fst (determineInitiator 1000 initial) = User \<and> 3000 - 2000 < CYCLE_TIMEOUT_MS \<and>
   fst (determineInitiator 3000 (markResponseComplete 2000 (snd (determineInitiator 1000 initial)))) = Agent \<and>
   pendingResponses (performAll [Determine 1000, Complete 2000] initial) = 0 \<and>
   400000 - lastResponseTime (performAll [Determine 1000, Complete 2000] initial) > CYCLE_TIMEOUT_MS \<and>
   fst (determineInitiator 400000 (performAll [Determine 1000, Complete 2000] initial)) = User \<and>
   inCycle (performAll [Determine 1000] initial) \<and>
   pendingResponses (performAll [Determine 1000] initial) \<noteq> 0 \<and>
   fst (determineInitiator 400000 (performAll [Determine 1000] initial)) = Agent"
  using cycle_timeout [of 1000 initial 3000 2000]
    cycle_timeout [where b = "performAll [Determine 1000, Complete 2000] initial" and now = 400000]
    cycle_timeout [where b = "performAll [Determine 1000] initial" and now = 400000]
  by (simp add: billing_defs Let_def)

text \<open>
  Claim C3 as stated fails at the boundary: exactly five minutes after the last response,
  with no response pending, the verdict is still \<open>Agent\<close>.
\<close>

theorem cycle_timeout_counterexample:
  "fst (determineInitiator 1000 initial) = User \<and>
   pendingResponses (performAll [Determine 1000, Complete 2000] initial) = 0 \<and>
   302000 - lastResponseTime (performAll [Determine 1000, Complete 2000] initial) \<ge> CYCLE_TIMEOUT_MS \<and>
   fst (determineInitiator 302000 (performAll [Determine 1000, Complete 2000] initial)) = Agent"
  by (simp add: billing_defs Let_def)

section \<open>Properties of concurrent calls\<close>

lemma chained_quiescent: "chained n0 b (Suc n0) (quiescent n0 b N)"
  by (auto simp: chained_def shape_def waiting_def uniqueTickets_def holder_def covered_def
      accounted_def quiescent_def verdictCount_def)

lemma filter_update_keep:
  "i < length xs \<Longrightarrow> \<not> P (xs ! i) \<Longrightarrow> \<not> P y \<Longrightarrow> filter P (xs[i := y]) = filter P xs"
  by (induction xs arbitrary: i) (auto split: nat.splits)

lemma filter_update_gain:
  "i < length xs \<Longrightarrow> \<not> P (xs ! i) \<Longrightarrow> P y \<Longrightarrow>
     length (filter P (xs[i := y])) = Suc (length (filter P xs))"
  by (induction xs arbitrary: i) (auto split: nat.splits)

lemma call_waiting:
  assumes "waiting k f ts" "i < length ts" "k \<le> f" "Suc l = f"
  shows "waiting k (Suc f) (ts[i := AwaitingLock l f])"
  unfolding waiting_def
proof (intro allI impI)
  fix j c r
  assume j: "j < length (ts[i := AwaitingLock l f])"
    and t: "ts[i := AwaitingLock l f] ! j = AwaitingLock c r"
  show "Suc c = r \<and> k \<le> r \<and> r < Suc f"
  proof (cases "j = i")
    case True
    with t assms show ?thesis by simp
  next
    case False
    with t j have "ts ! j = AwaitingLock c r" "j < length ts" by simp_all
    with assms(1) have "Suc c = r \<and> k \<le> r \<and> r < f" unfolding waiting_def by blast
    then show ?thesis by simp
  qed
qed

lemma call_unique:
  assumes "uniqueTickets ts" "waiting k f ts" "i < length ts"
  shows "uniqueTickets (ts[i := AwaitingLock l f])"
  unfolding uniqueTickets_def
proof (intro allI impI)
  fix j j' c c' r
  assume j: "j < length (ts[i := AwaitingLock l f])" and j': "j' < length (ts[i := AwaitingLock l f])"
    and t: "ts[i := AwaitingLock l f] ! j = AwaitingLock c r \<and>
            ts[i := AwaitingLock l f] ! j' = AwaitingLock c' r"
  have old: "r < f" if "m < length ts" "ts ! m = AwaitingLock d r" for m d
    using that assms(2) unfolding waiting_def by blast
  show "j = j'"
  proof (cases "j = i"; cases "j' = i")
    assume "j = i" "j' \<noteq> i"
    with t j j' have "r = f" "ts ! j' = AwaitingLock c' r" "j' < length ts" by simp_all
    with old show ?thesis by blast
  next
    assume "j \<noteq> i" "j' = i"
    with t j j' have "r = f" "ts ! j = AwaitingLock c r" "j < length ts" by simp_all
    with old show ?thesis by blast
  next
    assume "j \<noteq> i" "j' \<noteq> i"
    with t j j' have "ts ! j = AwaitingLock c r" "ts ! j' = AwaitingLock c' r"
      "j < length ts" "j' < length ts" by simp_all
    with assms(1) show ?thesis unfolding uniqueTickets_def by blast
  qed simp
qed

lemma call_covered:
  assumes "covered k f ts" "i < length ts" "ts ! i = NotCalled"
  shows "covered k (Suc f) (ts[i := AwaitingLock l f])"
  unfolding covered_def
proof (intro allI impI)
  fix p assume p: "k \<le> p \<and> p < Suc f"
  let ?ts = "ts[i := AwaitingLock l f]"
  show "\<exists>j < length ?ts. (\<exists>c. ?ts ! j = AwaitingLock c p) \<or> (p = k \<and> ?ts ! j = Acquired)"
  proof (cases "p = f")
    case True
    with assms(2) show ?thesis by (intro exI [of _ i]) simp
  next
    case False
    with p assms(1) obtain j where j: "j < length ts"
      "(\<exists>c. ts ! j = AwaitingLock c p) \<or> (p = k \<and> ts ! j = Acquired)"
      unfolding covered_def by (metis less_antisym)
    with assms(3) have "j \<noteq> i" by auto
    with j show ?thesis by (intro exI [of _ j]) simp
  qed
qed

lemma call_holder:
  assumes "holder k s" "i < length (tasks s)" "tasks s ! i = NotCalled"
  shows "holder k (s\<lparr>lock := fresh s, fresh := Suc (fresh s),
                  tasks := (tasks s)[i := AwaitingLock (lock s) (fresh s)]\<rparr>)"
  unfolding holder_def
proof (intro allI impI)
  let ?ts = "(tasks s)[i := AwaitingLock (lock s) (fresh s)]"
  let ?s = "s\<lparr>lock := fresh s, fresh := Suc (fresh s), tasks := ?ts\<rparr>"
  fix j assume j: "j < length (tasks ?s)" and a: "tasks ?s ! j = Acquired"
  then have ji: "j \<noteq> i" using assms(2) by auto
  with j a have old: "j < length (tasks s)" "tasks s ! j = Acquired" by simp_all
  with assms(1) have h: "releaseLock s = Some k" "k < fresh s"
    "\<forall>m < length (tasks s). tasks s ! m = Acquired \<longrightarrow> m = j"
    "\<forall>m < length (tasks s). \<forall>c. tasks s ! m \<noteq> AwaitingLock c k"
    unfolding holder_def by blast+
  have "\<forall>m < length (tasks ?s). tasks ?s ! m = Acquired \<longrightarrow> m = j"
    using h(3) assms(2) by (auto simp: nth_list_update split: if_splits)
  moreover have "\<forall>m < length (tasks ?s). \<forall>c. tasks ?s ! m \<noteq> AwaitingLock c k"
    using h(2,4) assms(2) by (auto simp: nth_list_update split: if_splits)
  ultimately show "releaseLock ?s = Some k \<and> k < fresh ?s \<and>
      (\<forall>m < length (tasks ?s). tasks ?s ! m = Acquired \<longrightarrow> m = j) \<and>
      (\<forall>m < length (tasks ?s). \<forall>c. tasks ?s ! m \<noteq> AwaitingLock c k)"
    using h(1,2) by simp
qed

lemma call_accounted:
  assumes "accounted n0 b k s" "i < length (tasks s)" "tasks s ! i = NotCalled"
  shows "accounted n0 b k (s\<lparr>lock := fresh s, fresh := Suc (fresh s),
                  tasks := (tasks s)[i := AwaitingLock (lock s) (fresh s)]\<rparr>)"
  using assms unfolding accounted_def verdictCount_def by (simp add: filter_update_keep)

lemma step_call:
  assumes "chained n0 b k s" "i < length (tasks s)" "tasks s ! i = NotCalled"
  shows "chained n0 b k (s\<lparr>lock := fresh s, fresh := Suc (fresh s),
                  tasks := (tasks s)[i := AwaitingLock (lock s) (fresh s)]\<rparr>)"
proof -
  from assms(1) have sh: "shape n0 k s" and w: "waiting k (fresh s) (tasks s)"
    and u: "uniqueTickets (tasks s)" and h: "holder k s"
    and c: "covered k (fresh s) (tasks s)" and a: "accounted n0 b k s"
    by (simp_all add: chained_def)
  from sh have sh': "k \<le> fresh s" "Suc (lock s) = fresh s" by (simp_all add: shape_def)
  show ?thesis
    unfolding chained_def
    using sh call_waiting [OF w assms(2) sh'] call_unique [OF u w assms(2)]
      call_holder [OF h assms(2,3)] call_covered [OF c assms(2,3)] call_accounted [OF a assms(2,3)]
    by (simp add: shape_def)
qed


lemma resume_facts:
  assumes "chained n0 b k s" "i < length (tasks s)" "tasks s ! i = AwaitingLock c r"
    "c \<in> resolved s"
  shows "r = k" and "k < fresh s" and "\<forall>j < length (tasks s). tasks s ! j \<noteq> Acquired"
proof -
  from assms(1) have sh: "shape n0 k s" and w: "waiting k (fresh s) (tasks s)"
    and h: "holder k s" by (simp_all add: chained_def)
  from w assms(2,3) have r: "Suc c = r" "k \<le> r" "r < fresh s" unfolding waiting_def by blast+
  from sh assms(4) have "c < k" by (simp add: shape_def)
  with r show "r = k" by simp
  with r show "k < fresh s" by simp
  show "\<forall>j < length (tasks s). tasks s ! j \<noteq> Acquired"
  proof (intro allI impI notI)
    fix j assume "j < length (tasks s)" "tasks s ! j = Acquired"
    with h have "\<forall>m < length (tasks s). \<forall>d. tasks s ! m \<noteq> AwaitingLock d k"
      unfolding holder_def by blast
    with assms(2,3) \<open>r = k\<close> show False by blast
  qed
qed

lemma resume_waiting:
  assumes "waiting k f ts" "i < length ts"
  shows "waiting k f (ts[i := Acquired])"
  using assms unfolding waiting_def by (auto simp: nth_list_update split: if_splits)

lemma resume_unique:
  assumes "uniqueTickets ts" "i < length ts" "\<forall>c r. t \<noteq> AwaitingLock c r"
  shows "uniqueTickets (ts[i := t])"
  unfolding uniqueTickets_def
proof (intro allI impI)
  fix j j' c c' r
  assume j: "j < length (ts[i := t])" and j': "j' < length (ts[i := t])"
    and t: "ts[i := t] ! j = AwaitingLock c r \<and> ts[i := t] ! j' = AwaitingLock c' r"
  from t assms(3) j j' have "j \<noteq> i" "j' \<noteq> i" by (auto simp: nth_list_update split: if_splits)
  with t j j' have "ts ! j = AwaitingLock c r" "ts ! j' = AwaitingLock c' r"
    "j < length ts" "j' < length ts" by simp_all
  with assms(1) show "j = j'" unfolding uniqueTickets_def by blast
qed

lemma resume_holder:
  assumes "uniqueTickets (tasks s)" "i < length (tasks s)" "tasks s ! i = AwaitingLock c k"
    "k < fresh s" "\<forall>j < length (tasks s). tasks s ! j \<noteq> Acquired"
  shows "holder k (s\<lparr>releaseLock := Some k, tasks := (tasks s)[i := Acquired]\<rparr>)"
  unfolding holder_def
proof (intro allI impI)
  let ?s = "s\<lparr>releaseLock := Some k, tasks := (tasks s)[i := Acquired]\<rparr>"
  fix j assume j: "j < length (tasks ?s)" and a: "tasks ?s ! j = Acquired"
  have only: "m = i" if "m < length (tasks s)" "(tasks s)[i := Acquired] ! m = Acquired" for m
    using that assms(2,5) by (auto simp: nth_list_update split: if_splits)
  from j a only have "j = i" by simp
  have "\<forall>m < length (tasks ?s). \<forall>d. tasks ?s ! m \<noteq> AwaitingLock d k"
  proof (intro allI impI notI)
    fix m d assume m: "m < length (tasks ?s)" "tasks ?s ! m = AwaitingLock d k"
    with assms(2) have "m \<noteq> i" by auto
    with m have "m < length (tasks s)" "tasks s ! m = AwaitingLock d k" by simp_all
    with assms(1,2,3) have "m = i" unfolding uniqueTickets_def by blast
    with \<open>m \<noteq> i\<close> show False by simp
  qed
  then show "releaseLock ?s = Some k \<and> k < fresh ?s \<and>
      (\<forall>m < length (tasks ?s). tasks ?s ! m = Acquired \<longrightarrow> m = j) \<and>
      (\<forall>m < length (tasks ?s). \<forall>d. tasks ?s ! m \<noteq> AwaitingLock d k)"
    using assms(4) only \<open>j = i\<close> by simp
qed

lemma resume_covered:
  assumes "covered k f ts" "i < length ts" "ts ! i = AwaitingLock c k"
  shows "covered k f (ts[i := Acquired])"
  unfolding covered_def
proof (intro allI impI)
  fix p assume p: "k \<le> p \<and> p < f"
  let ?ts = "ts[i := Acquired]"
  show "\<exists>j < length ?ts. (\<exists>d. ?ts ! j = AwaitingLock d p) \<or> (p = k \<and> ?ts ! j = Acquired)"
  proof (cases "p = k")
    case True
    with assms(2) show ?thesis by (intro exI [of _ i]) simp
  next
    case False
    with p assms(1) obtain j d where j: "j < length ts" "ts ! j = AwaitingLock d p"
      unfolding covered_def by blast
    with assms(3) False have "j \<noteq> i" by auto
    with j show ?thesis by (intro exI [of _ j]) simp
  qed
qed

lemma step_resume:
  assumes "chained n0 b k s" "i < length (tasks s)" "tasks s ! i = AwaitingLock c r"
    "c \<in> resolved s"
  shows "chained n0 b k (s\<lparr>releaseLock := Some r, tasks := (tasks s)[i := Acquired]\<rparr>)"
proof -
  from assms(1) have sh: "shape n0 k s" and w: "waiting k (fresh s) (tasks s)"
    and u: "uniqueTickets (tasks s)"
    and c: "covered k (fresh s) (tasks s)" and a: "accounted n0 b k s"
    by (simp_all add: chained_def)
  note f = resume_facts [OF assms]
  from assms(3) f(1) have t: "tasks s ! i = AwaitingLock c k" by simp
  have a': "accounted n0 b k (s\<lparr>releaseLock := Some r, tasks := (tasks s)[i := Acquired]\<rparr>)"
    using a assms(2,3) unfolding accounted_def verdictCount_def by (simp add: filter_update_keep)
  show ?thesis
    unfolding chained_def
    using sh resume_waiting [OF w assms(2)] resume_unique [OF u assms(2), of Acquired]
      resume_holder [OF u assms(2) t f(2,3)] resume_covered [OF c assms(2) t] a' f(1)
    by (simp add: shape_def)
qed

lemma release_waiting:
  assumes "waiting k f ts" "i < length ts" "\<forall>j < length ts. \<forall>c. ts ! j \<noteq> AwaitingLock c k"
  shows "waiting (Suc k) f (ts[i := Returned v])"
  unfolding waiting_def
proof (intro allI impI)
  fix j c r
  assume j: "j < length (ts[i := Returned v])" and t: "ts[i := Returned v] ! j = AwaitingLock c r"
  with assms(2) have "j \<noteq> i" by auto
  with j t have old: "j < length ts" "ts ! j = AwaitingLock c r" by simp_all
  with assms(1) have "Suc c = r \<and> k \<le> r \<and> r < f" unfolding waiting_def by blast
  moreover from old assms(3) have "r \<noteq> k" by blast
  ultimately show "Suc c = r \<and> Suc k \<le> r \<and> r < f" by simp
qed

lemma release_covered:
  assumes "covered k f ts" "i < length ts" "ts ! i = Acquired"
  shows "covered (Suc k) f (ts[i := Returned v])"
  unfolding covered_def
proof (intro allI impI)
  fix p assume p: "Suc k \<le> p \<and> p < f"
  let ?ts = "ts[i := Returned v]"
  from p have "k \<le> p \<and> p < f" "p \<noteq> k" by simp_all
  with assms(1) obtain j d where j: "j < length ts" "ts ! j = AwaitingLock d p"
    unfolding covered_def by blast
  with assms(3) have "j \<noteq> i" by auto
  with j show "\<exists>j < length ?ts. (\<exists>d. ?ts ! j = AwaitingLock d p) \<or> (p = Suc k \<and> ?ts ! j = Acquired)"
    by (intro exI [of _ j]) simp
qed

lemma release_accounted:
  assumes "accounted n0 b k s" "i < length (tasks s)" "tasks s ! i = Acquired" "n0 < k"
    "\<not> inCycle b" "pendingResponses b = 0"
  shows "accounted n0 b (Suc k)
           (s\<lparr>cycle := snd (determineInitiator now (cycle s)), resolved := R,
              tasks := (tasks s)[i := Returned (fst (determineInitiator now (cycle s)))]\<rparr>)"
proof (cases "k = Suc n0")
  case True
  with assms(1) have "cycle s = b" by (simp add: accounted_def)
  with assms(5,6) have d: "fst (determineInitiator now (cycle s)) = User"
    "inCycle (snd (determineInitiator now (cycle s)))"
    "pendingResponses (snd (determineInitiator now (cycle s))) = 1"
    by (simp_all add: billing_defs)
  show ?thesis
    using assms(1-4) True d unfolding accounted_def verdictCount_def
    by (simp add: filter_update_keep filter_update_gain)
next
  case False
  with assms(1,4) have c: "inCycle (cycle s)" "pendingResponses (cycle s) = int (k - Suc n0)"
    "0 < k - Suc n0"
    by (simp_all add: accounted_def)
  then have d: "fst (determineInitiator now (cycle s)) = Agent"
    "inCycle (snd (determineInitiator now (cycle s)))"
    "pendingResponses (snd (determineInitiator now (cycle s))) = int (k - Suc n0) + 1"
    by (simp_all add: billing_defs)
  show ?thesis
    using assms(1-4) False d unfolding accounted_def verdictCount_def
    by (simp add: filter_update_keep filter_update_gain) linarith
qed

lemma step_release:
  assumes "chained n0 b k s" "i < length (tasks s)" "tasks s ! i = Acquired"
    "\<not> inCycle b" "pendingResponses b = 0"
  shows "chained n0 b (Suc k)
           (s\<lparr>cycle := snd (determineInitiator now (cycle s)),
              resolved := (case releaseLock s of None \<Rightarrow> resolved s | Some p \<Rightarrow> insert p (resolved s)),
              tasks := (tasks s)[i := Returned (fst (determineInitiator now (cycle s)))]\<rparr>)"
proof -
  from assms(1) have sh: "shape n0 k s" and w: "waiting k (fresh s) (tasks s)"
    and u: "uniqueTickets (tasks s)" and h: "holder k s"
    and c: "covered k (fresh s) (tasks s)" and a: "accounted n0 b k s"
    by (simp_all add: chained_def)
  from h assms(2,3) have hk: "releaseLock s = Some k" "k < fresh s"
    "\<forall>j < length (tasks s). tasks s ! j = Acquired \<longrightarrow> j = i"
    "\<forall>j < length (tasks s). \<forall>c. tasks s ! j \<noteq> AwaitingLock c k"
    unfolding holder_def by blast+
  let ?v = "fst (determineInitiator now (cycle s))"
  let ?s = "s\<lparr>cycle := snd (determineInitiator now (cycle s)),
              resolved := (case releaseLock s of None \<Rightarrow> resolved s | Some p \<Rightarrow> insert p (resolved s)),
              tasks := (tasks s)[i := Returned ?v]\<rparr>"
  from sh hk(1,2) have sh': "shape n0 (Suc k) ?s"
    by (simp add: shape_def lessThan_Suc)
  have "(tasks s)[i := Returned ?v] ! j \<noteq> Acquired" if "j < length (tasks s)" for j
  proof (cases "j = i")
    case True
    with that show ?thesis by simp
  next
    case False
    with hk(3) that show ?thesis by auto
  qed
  then have h': "holder (Suc k) ?s"
    by (simp add: holder_def)
  from sh have "n0 < k" by (simp add: shape_def)
  show ?thesis
    unfolding chained_def
    using sh' h' release_waiting [OF w assms(2) hk(4), of ?v]
      resume_unique [OF u assms(2), of "Returned ?v"]
      release_covered [OF c assms(2,3), of ?v]
      release_accounted [OF a assms(2,3) \<open>n0 < k\<close> assms(4,5)]
    by simp
qed

lemma chained_step:
  assumes "chained n0 b k s" "\<not> inCycle b" "pendingResponses b = 0" "step i now s = Some s'"
  shows "\<exists>k'. chained n0 b k' s'"
proof -
  from assms(4) have i: "i < length (tasks s)"
    by (simp add: step_def split: if_splits)
  show ?thesis
  proof (cases "tasks s ! i")
    case NotCalled
    with assms(4) i have "s' = s\<lparr>lock := fresh s, fresh := Suc (fresh s),
        tasks := (tasks s)[i := AwaitingLock (lock s) (fresh s)]\<rparr>"
      by (simp add: step_def)
    with step_call [OF assms(1) i NotCalled] show ?thesis by blast
  next
    case (AwaitingLock c r)
    with assms(4) i have c: "c \<in> resolved s"
      and "s' = s\<lparr>releaseLock := Some r, tasks := (tasks s)[i := Acquired]\<rparr>"
      by (simp_all add: step_def split: if_splits)
    with step_resume [OF assms(1) i AwaitingLock c] show ?thesis by blast
  next
    case Acquired
    with assms(4) i have "s' = s\<lparr>cycle := snd (determineInitiator now (cycle s)),
        resolved := (case releaseLock s of None \<Rightarrow> resolved s | Some p \<Rightarrow> insert p (resolved s)),
        tasks := (tasks s)[i := Returned (fst (determineInitiator now (cycle s)))]\<rparr>"
      by (simp add: step_def)
    with step_release [OF assms(1) i Acquired assms(2,3), of now] show ?thesis by blast
  next
    case (Returned v)
    with assms(4) i show ?thesis by (simp add: step_def)
  qed
qed

lemma chained_run:
  assumes "\<not> inCycle b" "pendingResponses b = 0"
  shows "run sched s = Some s' \<Longrightarrow> chained n0 b k s \<Longrightarrow> \<exists>k'. chained n0 b k' s'"
proof (induction sched arbitrary: s k)
  case Nil
  then show ?case by auto
next
  case (Cons x sched)
  obtain i now where x: "x = (i, now)" by (cases x)
  with Cons.prems(1) obtain s1 where s1: "step i now s = Some s1" "run sched s1 = Some s'"
    by (auto split: option.splits)
  from chained_step [OF Cons.prems(2) assms s1(1)] obtain k1 where "chained n0 b k1 s1" ..
  with Cons.IH s1(2) show ?case by blast
qed


lemma sum_list_map_update:
  fixes f :: "'a \<Rightarrow> nat"
  shows "i < length xs \<Longrightarrow> sum_list (map f (xs[i := y])) + f (xs ! i) = sum_list (map f xs) + f y"
  by (induction xs arbitrary: i) (auto split: nat.splits)

lemma step_work:
  assumes "step i now s = Some s'"
  shows "Suc (sum_list (map remaining (tasks s'))) = sum_list (map remaining (tasks s))"
    and "length (tasks s') = length (tasks s)"
proof -
  from assms have i: "i < length (tasks s)"
    by (simp add: step_def split: if_splits)
  from assms i obtain t where t: "tasks s' = (tasks s)[i := t]"
    "Suc (remaining t) = remaining (tasks s ! i)"
    by (cases "tasks s ! i") (auto simp: step_def split: if_splits)
  from sum_list_map_update [OF i, of remaining t] t
  show "Suc (sum_list (map remaining (tasks s'))) = sum_list (map remaining (tasks s))"
    by simp
  from t show "length (tasks s') = length (tasks s)" by simp
qed

lemma run_work:
  "run sched s = Some s' \<Longrightarrow>
     length sched + sum_list (map remaining (tasks s')) = sum_list (map remaining (tasks s)) \<and>
     length (tasks s') = length (tasks s)"
proof (induction sched arbitrary: s)
  case Nil
  then show ?case by simp
next
  case (Cons x sched)
  obtain i now where x: "x = (i, now)" by (cases x)
  with Cons.prems obtain s1 where s1: "step i now s = Some s1" "run sched s1 = Some s'"
    by (auto split: option.splits)
  from Cons.IH [OF s1(2)] step_work [OF s1(1)] show ?case by simp
qed

lemma work_done: "sum_list (map remaining ts) = 0 \<longleftrightarrow> list_all isReturned ts"
proof (induction ts)
  case Nil
  then show ?case by simp
next
  case (Cons t ts)
  then show ?case by (cases t) simp_all
qed

lemma some_task_can_run:
  assumes "chained n0 b k s" "\<not> list_all isReturned (tasks s)"
  shows "\<exists>i < length (tasks s). \<forall>now. step i now s \<noteq> None"
proof -
  from assms(1) have sh: "shape n0 k s" and w: "waiting k (fresh s) (tasks s)"
    and c: "covered k (fresh s) (tasks s)"
    by (simp_all add: chained_def)
  from assms(2) obtain i where i: "i < length (tasks s)" "\<not> isReturned (tasks s ! i)"
    by (auto simp: list_all_length)
  have runs: "\<forall>now. step j now s \<noteq> None"
    if "j < length (tasks s)" "tasks s ! j = NotCalled \<or> tasks s ! j = Acquired" for j
    using that by (auto simp: step_def)
  have woken: "\<forall>now. step j now s \<noteq> None"
    if "j < length (tasks s)" "tasks s ! j = AwaitingLock d k" for j d
  proof -
    from w that have "Suc d = k" unfolding waiting_def by blast
    with sh have "d \<in> resolved s" by (auto simp: shape_def)
    with that show ?thesis by (simp add: step_def)
  qed
  show ?thesis
  proof (cases "tasks s ! i")
    case NotCalled
    with runs i(1) show ?thesis by blast
  next
    case Acquired
    with runs i(1) show ?thesis by blast
  next
    case (Returned v)
    with i(2) show ?thesis by simp
  next
    case (AwaitingLock d r)
    with w i(1) have "k \<le> r" "r < fresh s" unfolding waiting_def by blast+
    then have "k \<le> k \<and> k < fresh s" by simp
    with c obtain j where j: "j < length (tasks s)"
      "(\<exists>d. tasks s ! j = AwaitingLock d k) \<or> tasks s ! j = Acquired"
      unfolding covered_def by blast
    with runs woken show ?thesis by blast
  qed
qed

lemma filter_eq_absent: "a \<notin> set xs \<Longrightarrow> filter (\<lambda>t. t = a) xs = []"
  by (induction xs) auto

lemma at_most_one:
  "(\<forall>i < length xs. \<forall>j < length xs. xs ! i = a \<and> xs ! j = a \<longrightarrow> i = j) \<Longrightarrow>
     length (filter (\<lambda>t. t = a) xs) \<le> 1"
proof (induction xs)
  case Nil
  then show ?case by simp
next
  case (Cons x xs)
  show ?case
  proof (cases "x = a")
    case True
    have "a \<notin> set xs"
    proof
      assume "a \<in> set xs"
      then obtain j where "j < length xs" "xs ! j = a" by (auto simp: in_set_conv_nth)
      with Cons.prems True have "(0::nat) = Suc j" by (metis length_Cons nth_Cons_0 nth_Cons_Suc Suc_less_eq zero_less_Suc)
      then show False by simp
    qed
    with True show ?thesis by (simp add: filter_eq_absent)
  next
    case False
    have "\<forall>i < length xs. \<forall>j < length xs. xs ! i = a \<and> xs ! j = a \<longrightarrow> i = j"
    proof (intro allI impI)
      fix i j assume "i < length xs" "j < length xs" "xs ! i = a \<and> xs ! j = a"
      with Cons.prems have "Suc i = Suc j" by (metis length_Cons nth_Cons_Suc Suc_less_eq)
      then show "i = j" by simp
    qed
    from Cons.IH [OF this] False show ?thesis by simp
  qed
qed

lemma one_in_critical_section:
  assumes "chained n0 b k s"
  shows "inCriticalSection s \<le> 1"
proof -
  from assms have "holder k s" by (simp add: chained_def)
  then have "\<forall>i < length (tasks s). \<forall>j < length (tasks s).
      tasks s ! i = Acquired \<and> tasks s ! j = Acquired \<longrightarrow> i = j"
    unfolding holder_def by blast
  from at_most_one [OF this] show ?thesis by (simp add: inCriticalSection_def)
qed

text \<open>
  Claim C1. \<open>N\<close> calls of \<open>determineInitiator\<close> are made on an idle cycle (\<open>inCycle\<close>
  false, \<open>pendingResponses\<close> 0) of a quiescent manager, and their pieces run in any
  order the promises allow, at any clock readings. Then at every moment at most one call
  is between acquiring and releasing the lock and at most one call has returned \<open>User\<close>;
  as long as some call has not returned, some call can run; no schedule is longer than
  \<open>3 * N\<close> pieces, and after \<open>3 * N\<close> pieces, and only then, all calls have returned:
  exactly one with \<open>User\<close> and \<open>N - 1\<close> with \<open>Agent\<close>.
\<close>

theorem concurrent_first_calls:
  assumes "\<not> inCycle b" and "pendingResponses b = 0" and "0 < N"
    and "run sched (quiescent n0 b N) = Some s"
  shows "inCriticalSection s \<le> 1 \<and>
         verdictCount User s \<le> 1 \<and>
         (list_all isReturned (tasks s) \<longrightarrow> verdictCount User s = 1 \<and> verdictCount Agent s = N - 1) \<and>
         (\<not> list_all isReturned (tasks s) \<longrightarrow> (\<exists>i < N. \<forall>now. step i now s \<noteq> None)) \<and>
         length sched \<le> 3 * N \<and>
         (list_all isReturned (tasks s) \<longleftrightarrow> length sched = 3 * N)"
proof -
  from chained_run [OF assms(1,2,4) chained_quiescent] obtain k where k: "chained n0 b k s" ..
  from run_work [OF assms(4)]
  have work: "length sched + sum_list (map remaining (tasks s)) = 3 * N"
    and len: "length (tasks s) = N"
    by (simp_all add: quiescent_def sum_list_replicate)
  from k have acc: "accounted n0 b k s" by (simp add: chained_def)
  have finished: "list_all isReturned (tasks s) \<longleftrightarrow> length sched = 3 * N"
  proof
    assume "list_all isReturned (tasks s)"
    then have "sum_list (map remaining (tasks s)) = 0" by (simp only: work_done)
    with work show "length sched = 3 * N" by linarith
  next
    assume "length sched = 3 * N"
    with work have "sum_list (map remaining (tasks s)) = 0" by linarith
    then show "list_all isReturned (tasks s)" by (simp only: work_done)
  qed
  have billed: "verdictCount User s \<le> 1"
    using acc by (auto simp: accounted_def split: if_splits)
  have final: "verdictCount User s = 1 \<and> verdictCount Agent s = N - 1"
    if "list_all isReturned (tasks s)"
  proof -
    from that have "filter isReturned (tasks s) = tasks s" by (simp add: list_all_iff)
    with acc len have "k - Suc n0 = N" by (simp add: accounted_def)
    with acc assms(3) show ?thesis by (auto simp: accounted_def split: if_splits)
  qed
  from some_task_can_run [OF k] len
  have progress: "\<not> list_all isReturned (tasks s) \<longrightarrow> (\<exists>i < N. \<forall>now. step i now s \<noteq> None)"
    by simp
  from one_in_critical_section [OF k] billed final progress work finished show ?thesis
    by simp
qed

theorem concurrent_first_calls_witness:
  "\<not> inCycle initial \<and> pendingResponses initial = 0 \<and> (0::nat) < 2 \<and>
   run [(0, 1000), (1, 1000), (0, 1000), (0, 1000), (1, 1001), (1, 1001)] (quiescent 0 initial 2)
     = Some \<lparr>cycle = \<lparr>inCycle = True, lastResponseTime = 0, pendingResponses = 2\<rparr>,
         lock = 2, releaseLock = Some 2, resolved = {0, 1, 2}, fresh = 3,
         tasks = [Returned User, Returned Agent]\<rparr> \<and>
   list_all isReturned [Returned User, Returned Agent] \<and>
   verdictCount User
     \<lparr>cycle = \<lparr>inCycle = True, lastResponseTime = 0, pendingResponses = 2\<rparr>,
      lock = 2, releaseLock = Some 2, resolved = {0, 1, 2}, fresh = 3,
      tasks = [Returned User, Returned Agent]\<rparr> = 1 \<and>
   verdictCount Agent
     \<lparr>cycle = \<lparr>inCycle = True, lastResponseTime = 0, pendingResponses = 2\<rparr>,
      lock = 2, releaseLock = Some 2, resolved = {0, 1, 2}, fresh = 3,
      tasks = [Returned User, Returned Agent]\<rparr> = 1 \<and>
   run [(0, 1000), (1, 1000)] (quiescent 0 initial 2)
     = Some \<lparr>cycle = initial, lock = 2, releaseLock = None, resolved = {0}, fresh = 3,
         tasks = [AwaitingLock 0 1, AwaitingLock 1 2]\<rparr> \<and>
   \<not> list_all isReturned [AwaitingLock 0 1, AwaitingLock 1 2] \<and>
   step 0 1000
     \<lparr>cycle = initial, lock = 2, releaseLock = None, resolved = {0}, fresh = 3,
      tasks = [AwaitingLock 0 1, AwaitingLock 1 2]\<rparr> \<noteq> None \<and>
   step 1 1000
     \<lparr>cycle = initial, lock = 2, releaseLock = None, resolved = {0}, fresh = 3,
      tasks = [AwaitingLock 0 1, AwaitingLock 1 2]\<rparr> = None"
  using concurrent_first_calls
    [of initial 2 "[(0, 1000), (1, 1000), (0, 1000), (0, 1000), (1, 1001), (1, 1001)]" 0
        "\<lparr>cycle = \<lparr>inCycle = True, lastResponseTime = 0, pendingResponses = 2\<rparr>,
          lock = 2, releaseLock = Some 2, resolved = {0, 1, 2}, fresh = 3,
          tasks = [Returned User, Returned Agent]\<rparr>"]
    concurrent_first_calls
    [of initial 2 "[(0, 1000), (1, 1000)]" 0
        "\<lparr>cycle = initial, lock = 2, releaseLock = None, resolved = {0}, fresh = 3,
          tasks = [AwaitingLock 0 1, AwaitingLock 1 2]\<rparr>"]
  by (simp add: step_def quiescent_def verdictCount_def billing_defs eval_nat_numeral insert_commute)

section \<open>Properties of the API key middleware\<close>

lemmas auth_defs = truthy_def startsWithBearer_def providedKey_def apiKeyAuth_def

text \<open>
  Claim C10. With an API key configured, a request whose \<open>Authorization\<close> header
  starts with \<open>Bearer \<close> is decided by the Bearer token alone: it passes when the token
  equals the configured key and is rejected with status 401 otherwise, whatever the
  \<open>X-API-Key\<close> header holds (the configured key included). \<open>X-API-Key\<close> decides only
  when there is no such \<open>Authorization\<close> header.
\<close>

theorem bearer_overrides_x_api_key:
  "truthy (Some key) \<longrightarrow>
     (take 7 a = ''Bearer '' \<longrightarrow>
        apiKeyAuth (Some key) \<lparr>Authorization = Some a, X_API_Key = x\<rparr> =
          (if drop 7 a = key then CallNext
           else HTTPException 401 ''Invalid or missing API key'')) \<and>
     (\<not> startsWithBearer auth \<longrightarrow>
        apiKeyAuth (Some key) \<lparr>Authorization = auth, X_API_Key = x\<rparr> =
          (if x = Some key then CallNext
           else HTTPException 401 ''Invalid or missing API key''))"
  by (auto simp: auth_defs split: option.splits)

theorem bearer_overrides_x_api_key_witness:
  "truthy (Some ''secret'') \<and> take 7 ''Bearer wrong'' = ''Bearer '' \<and>
   apiKeyAuth (Some ''secret'') \<lparr>Authorization = Some ''Bearer wrong'', X_API_Key = Some ''secret''\<rparr>
     = HTTPException 401 ''Invalid or missing API key'' \<and>
   \<not> startsWithBearer (Some ''Basic abc'') \<and>
   apiKeyAuth (Some ''secret'') \<lparr>Authorization = Some ''Basic abc'', X_API_Key = Some ''secret''\<rparr>
     = CallNext"
  using bearer_overrides_x_api_key [of "''secret''" "''Bearer wrong''" "Some ''secret''" "Some ''Basic abc''"]
  by (simp add: auth_defs)

section \<open>Properties of the heartbeat\<close>

lemma tick_uncapped:
  "maxConnectionDuration (config hb) = 0 \<Longrightarrow>
     timer (tick w now hb) = timer hb \<and> maxDurationCalls (tick w now hb) = maxDurationCalls hb \<and>
     config (tick w now hb) = config hb"
  by (simp add: tick_def Let_def)

lemma ticks_uncapped:
  "maxConnectionDuration (config hb) = 0 \<Longrightarrow>
     timer (ticks ts hb) = timer hb \<and> maxDurationCalls (ticks ts hb) = maxDurationCalls hb"
proof (induction ts arbitrary: hb)
  case Nil
  then show ?case by simp
next
  case (Cons t ts)
  obtain w now where t: "t = (w, now)" by (cases t)
  show ?case
  proof (cases "timer hb")
    case True
    with Cons.prems tick_uncapped [of hb w now] Cons.IH [of "tick w now hb"] t
    show ?thesis by simp
  next
    case False
    with Cons t show ?thesis by simp
  qed
qed

text \<open>
  A session whose configuration object carries \<open>maxConnectionDuration = 0\<close> is never
  stopped by the duration check and never invokes \<open>onMaxDuration\<close>.
\<close>

lemma explicit_zero_disables_cap:
  "timer (ticks ts (start t0 (createHeartbeatManager env (c\<lparr>maxConnectionDuration_opt := Some 0\<rparr>))))
     = enabled (spread (DEFAULT_HEARTBEAT_CONFIG env) c) \<and>
   maxDurationCalls (ticks ts (start t0 (createHeartbeatManager env (c\<lparr>maxConnectionDuration_opt := Some 0\<rparr>)))) = 0"
proof -
  let ?hb = "start t0 (createHeartbeatManager env (c\<lparr>maxConnectionDuration_opt := Some 0\<rparr>))"
  have "maxConnectionDuration (config ?hb) = 0"
    by (simp add: start_def createHeartbeatManager_def spread_def)
  from ticks_uncapped [OF this, of ts] show ?thesis
    by (simp add: start_def createHeartbeatManager_def spread_def)
qed

text \<open>
  Claim C9 at the environment surface. With \<open>SSE_MAX_CONNECTION_DURATION=0\<close> the
  default configuration holds a cap of 600000 ms, not 0: a session created without a
  configuration object, as the handlers create it, and started at time 0 is stopped by
  the duration check of the tick at 600001 ms, which invokes \<open>onMaxDuration\<close>.
\<close>

theorem env_zero_keeps_cap:
  "maxConnectionDuration (DEFAULT_HEARTBEAT_CONFIG
      \<lparr>SSE_HEARTBEAT_INTERVAL = NaN, SSE_HEARTBEAT_ENABLED = None,
       SSE_MAX_CONNECTION_DURATION = Num 0\<rparr>) = 600000 \<and>
   timer (start 0 (createHeartbeatManager
      \<lparr>SSE_HEARTBEAT_INTERVAL = NaN, SSE_HEARTBEAT_ENABLED = None,
       SSE_MAX_CONNECTION_DURATION = Num 0\<rparr> noConfig)) \<and>
   \<not> timer (ticks [(True, 600001)] (start 0 (createHeartbeatManager
      \<lparr>SSE_HEARTBEAT_INTERVAL = NaN, SSE_HEARTBEAT_ENABLED = None,
       SSE_MAX_CONNECTION_DURATION = Num 0\<rparr> noConfig))) \<and>
   maxDurationCalls (ticks [(True, 600001)] (start 0 (createHeartbeatManager
      \<lparr>SSE_HEARTBEAT_INTERVAL = NaN, SSE_HEARTBEAT_ENABLED = None,
       SSE_MAX_CONNECTION_DURATION = Num 0\<rparr> noConfig))) = 1"
  by (simp add: DEFAULT_HEARTBEAT_CONFIG_def orDefault_def createHeartbeatManager_def
      spread_def noConfig_def start_def stop_def tick_def Let_def)

section \<open>Properties of the request handlers\<close>

lemma streamCallback_reply_not_json: "reply (streamCallback env loop b) \<noteq> JsonReply j"
  by (simp add: streamCallback_def Let_def split: option.splits)

lemma streamCallback_effects_nonempty: "effects (streamCallback env loop b) \<noteq> []"
  by (simp add: streamCallback_def Let_def split: option.splits)

lemma streamCallback_complete_iff:
  "MarkResponseComplete \<in> set (effects (streamCallback env loop b)) \<longleftrightarrow> snd loop = None"
  by (cases "snd loop") (auto simp: streamCallback_def Let_def)

text \<open>
  Claim C7. Both handlers take the value of the backend call for a complete response
  exactly when it has an own property \<open>choices\<close>: then the reply is sent at once (the
  value itself, or its translation) with no stream opened; otherwise the value is driven
  through the streaming callback.
\<close>

theorem choices_field_discriminates:
  "(dispatch b = (Inr response, b1) \<longrightarrow>
      ((\<exists>j. reply (handleCompletion_chat env dispatch b) = JsonReply j)
         \<longleftrightarrow> ''choices'' \<in> set (ownProperties response)) \<and>
      handleCompletion_chat env dispatch b =
        (if ''choices'' \<in> set (ownProperties response)
         then \<lparr>reply = JsonReply response, billingAfter = b1, effects = [], heartbeatAfter = None\<rparr>
         else streamCallback env (chatLoop env response) b1))
   \<and>
   (dispatch' b' = (Inr response', b1') \<longrightarrow>
      (effects (handleCompletion_messages env' tr dispatch' b') = []
         \<longleftrightarrow> ''choices'' \<in> set (ownProperties response')) \<and>
      handleCompletion_messages env' tr dispatch' b' =
        (if ''choices'' \<in> set (ownProperties response')
         then (case translateToAnthropic tr response' of
                 Inl e \<Rightarrow> \<lparr>reply = Thrown e, billingAfter = b1', effects = [], heartbeatAfter = None\<rparr>
               | Inr j \<Rightarrow> \<lparr>reply = JsonReply j, billingAfter = b1', effects = [], heartbeatAfter = None\<rparr>)
         else streamCallback env' (messagesLoop env' tr response') b1'))"
  by (auto simp: handleCompletion_chat_def handleCompletion_messages_def isNonStreaming_def
      streamCallback_reply_not_json streamCallback_effects_nonempty split: sum.splits)

text \<open>
  Claim C5. In the handler of the native protocol, when the backend call returns a
  complete response, the handler replies with it and calls neither billing hook: the
  billing state is the one the backend call left. The completion hook is called on the
  streaming path only, when the streaming loop ends without an error.
\<close>

theorem chat_json_reply_leaves_billing:
  "(dispatch b = (Inr response, b1) \<and> isNonStreaming response \<longrightarrow>
      reply (handleCompletion_chat env dispatch b) = JsonReply response \<and>
      billingAfter (handleCompletion_chat env dispatch b) = b1 \<and>
      MarkResponseComplete \<notin> set (effects (handleCompletion_chat env dispatch b)) \<and>
      MarkRequestFailed \<notin> set (effects (handleCompletion_chat env dispatch b)))
   \<and>
   (MarkResponseComplete \<in> set (effects (handleCompletion_chat env dispatch b)) \<longleftrightarrow>
      (\<exists>response b1. dispatch b = (Inr response, b1) \<and> \<not> isNonStreaming response \<and>
         snd (chatLoop env response) = None))"
  by (cases "dispatch b"; cases "fst (dispatch b)")
    (auto simp: handleCompletion_chat_def streamCallback_complete_iff split: sum.splits)

lemmas handler_defs =
  handleCompletion_chat_def handleCompletion_messages_def isNonStreaming_def chatLoop_def
  messagesLoop_def streamCallback_def notIterable_def newStreamState_def completes_def failsWith_def
  createHeartbeatManager_def DEFAULT_HEARTBEAT_CONFIG_def orDefault_def spread_def noConfig_def
  start_def stop_def tick_def

lemmas sample_defs =
  sampleEnv_def brokenPipe_def returning_def completeResponse_def frameSequence_def
  sampleTranslators_def throwingTranslators_def hiChunk_def stopChunk_def notJSON_def

lemmas translate_defs =
  translateStream_def translateFrame_def translateText_def translateToolFragment_def
  translateFinish_def closeBlock_def openBlock_def bufferArgument_def toolBlockOpen_def
  roleFrame_def textFrame_def toolFrame_def terminalFrame_def properlyNested_def
  newStreamState_def

theorem choices_field_discriminates_witness:
  "returning completeResponse initial
     = (Inr (completeResponse :: string backend_value), snd (determineInitiator 1000 initial)) \<and>
   handleCompletion_chat sampleEnv (returning (completeResponse :: string backend_value)) initial
     = \<lparr>reply = JsonReply completeResponse, billingAfter = snd (determineInitiator 1000 initial),
        effects = [], heartbeatAfter = None\<rparr> \<and>
   returning (frameSequence [Yield (Some hiChunk), Yield (Some stopChunk), Yield (Some ''[DONE]'')]) initial
     = (Inr (frameSequence [Yield (Some hiChunk), Yield (Some stopChunk), Yield (Some ''[DONE]'')]),
        snd (determineInitiator 1000 initial)) \<and>
   effects (handleCompletion_messages sampleEnv sampleTranslators
      (returning (frameSequence [Yield (Some hiChunk), Yield (Some stopChunk), Yield (Some ''[DONE]'')])) initial)
     = HeartbeatStart # map WriteSSE
         [message_start, content_block_start TextBlock 0 None,
        content_block_delta (text_delta ''Hi''), content_block_stop,
        message_delta end_turn None, message_stop]
       @ [MarkResponseComplete, HeartbeatStop]"
  using choices_field_discriminates
    [of "returning (completeResponse :: string backend_value)" initial completeResponse
        "snd (determineInitiator 1000 initial)" sampleEnv
        "returning (frameSequence [Yield (Some hiChunk), Yield (Some stopChunk), Yield (Some ''[DONE]'')])" initial
        "frameSequence [Yield (Some hiChunk), Yield (Some stopChunk), Yield (Some ''[DONE]'')]"
        "snd (determineInitiator 1000 initial)" sampleEnv sampleTranslators]
  by (simp add: handler_defs sample_defs translate_defs Let_def)

theorem chat_json_reply_leaves_billing_witness:
  "returning completeResponse initial
     = (Inr (completeResponse :: string backend_value), snd (determineInitiator 1000 initial)) \<and>
   isNonStreaming (completeResponse :: string backend_value) \<and>
   reply (handleCompletion_chat sampleEnv (returning (completeResponse :: string backend_value)) initial)
     = JsonReply completeResponse \<and>
   pendingResponses (billingAfter
      (handleCompletion_chat sampleEnv (returning (completeResponse :: string backend_value)) initial)) = 1"
  using chat_json_reply_leaves_billing
    [of "returning (completeResponse :: string backend_value)" initial completeResponse
        "snd (determineInitiator 1000 initial)" sampleEnv]
  by (simp add: handler_defs sample_defs billing_defs Let_def)

text \<open>
  The loops of the handlers on a stream whose first frames are pulled, translated and
  written without an error, whatever follows.
\<close>

lemma accepted_append:
  "accepted w n (xs @ ys) \<longleftrightarrow> accepted w n xs \<and> accepted w (n + length xs) ys"
  by (induction xs arbitrary: n) auto

lemma streamCallback_completes:
  "snd loop = None \<Longrightarrow> completes env b (fst loop) (streamCallback env loop b)"
  by (simp add: completes_def streamCallback_def Let_def stop_def)

lemma streamCallback_failsWith:
  "snd loop = Some e \<Longrightarrow> failsWith e b (fst loop) (streamCallback env loop b)"
  by (simp add: failsWith_def streamCallback_def Let_def stop_def)

lemma forwardChunks_prefix:
  "accepted w (length out) cs \<Longrightarrow>
     forwardChunks w (map Yield cs @ rest) out = forwardChunks w rest (out @ cs)"
proof (induction cs arbitrary: out)
  case Nil
  then show ?case by simp
next
  case (Cons c cs)
  from Cons.prems have "w (length out) c = None" "accepted w (length (out @ [c])) cs"
    by simp_all
  with Cons.IH [of "out @ [c]"] show ?case by simp
qed

lemma writeEvents_accepted:
  "accepted w (length out) es \<Longrightarrow> writeEvents w es out = (out @ es, None)"
proof (induction es arbitrary: out)
  case Nil
  then show ?case by simp
next
  case (Cons ev es)
  from Cons.prems have "w (length out) ev = None" "accepted w (length (out @ [ev])) es"
    by simp_all
  with Cons.IH [of "out @ [ev]"] show ?case by simp
qed

lemma writeEvents_rejected:
  "accepted w (length out) es1 \<Longrightarrow> w (length out + length es1) ev = Some e \<Longrightarrow>
     writeEvents w (es1 @ ev # es2) out = (out @ es1, Some e)"
proof (induction es1 arbitrary: out)
  case Nil
  then show ?case by simp
next
  case (Cons x es1)
  from Cons.prems have "w (length out) x = None" "accepted w (length (out @ [x])) es1"
    "w (length (out @ [x]) + length es1) ev = Some e"
    by simp_all
  with Cons.IH [of "out @ [x]"] show ?case by simp
qed

lemma translateFrames_prefix:
  "translated tr ds st = Some (evs, st') \<Longrightarrow> accepted w (length out) evs \<Longrightarrow>
     translateFrames w tr (map Yield ds @ rest) st out = translateFrames w tr rest st' (out @ evs)"
proof (induction ds arbitrary: st out evs)
  case Nil
  then show ?case by simp
next
  case (Cons d ds)
  show ?case
  proof (cases d)
    case None
    with Cons show ?thesis by simp
  next
    case (Some x)
    show ?thesis
    proof (cases "x = []")
      case True
      with Some Cons show ?thesis by simp
    next
      case False
      from Cons.prems(1) Some False obtain k es st1 es' where
        x: "x \<noteq> ''[DONE]''" and k: "parseJSON tr x = Inr k"
        and t: "translateChunkToAnthropicEvents tr k st = Inr (es, st1)"
        and r: "translated tr ds st1 = Some (es', st')" and evs: "evs = es @ es'"
        by (auto split: if_splits sum.splits option.splits)
      from Cons.prems(2) evs have a: "accepted w (length out) es"
        "accepted w (length (out @ es)) es'"
        by (simp_all add: accepted_append)
      from Cons.IH [OF r a(2), of ] writeEvents_accepted [OF a(1)] Some False x k t evs
      show ?thesis by simp
    qed
  qed
qed

lemma chat_streams:
  assumes "dispatch b = (Inr response, b1)" "\<not> isNonStreaming response"
  shows "handleCompletion_chat env dispatch b = streamCallback env (chatLoop env response) b1"
  using assms by (simp add: handleCompletion_chat_def)

lemma messages_streams:
  assumes "dispatch b = (Inr response, b1)" "\<not> isNonStreaming response"
  shows "handleCompletion_messages env tr dispatch b
           = streamCallback env (messagesLoop env tr response) b1"
  using assms by (simp add: handleCompletion_messages_def)

lemma chatLoop_cases:
  shows "frames response = None \<Longrightarrow> chatLoop env response = ([], Some notIterable)"
    and "frames response = Some (map Yield cs) \<Longrightarrow> accepted (writeSSE env) 0 cs
           \<Longrightarrow> chatLoop env response = (cs, None)"
    and "frames response = Some (map Yield cs @ Throws e # rest) \<Longrightarrow> accepted (writeSSE env) 0 cs
           \<Longrightarrow> chatLoop env response = (cs, Some e)"
    and "frames response = Some (map Yield cs @ Yield c # rest) \<Longrightarrow> accepted (writeSSE env) 0 cs
           \<Longrightarrow> writeSSE env (length cs) c = Some e
           \<Longrightarrow> chatLoop env response = (cs, Some e)"
  using forwardChunks_prefix [of "writeSSE env" "[]" cs "[]"]
    forwardChunks_prefix [of "writeSSE env" "[]" cs "Throws e # rest"]
    forwardChunks_prefix [of "writeSSE env" "[]" cs "Yield c # rest"]
  by (simp_all add: chatLoop_def)

lemma messagesLoop_cases:
  assumes "translated tr ds newStreamState = Some (evs, st)"
  shows "frames response = Some (map Yield ds) \<Longrightarrow> accepted (writeSSE env) 0 evs
           \<Longrightarrow> messagesLoop env tr response = (evs, None)"
    and "frames response = Some (map Yield ds @ Yield (Some ''[DONE]'') # rest)
           \<Longrightarrow> accepted (writeSSE env) 0 evs
           \<Longrightarrow> messagesLoop env tr response = (evs, None)"
    and "frames response = Some (map Yield ds @ Throws e # rest)
           \<Longrightarrow> accepted (writeSSE env) 0 evs
           \<Longrightarrow> messagesLoop env tr response = (evs, Some e)"
    and "frames response = Some (map Yield ds @ Yield (Some d) # rest)
           \<Longrightarrow> accepted (writeSSE env) 0 evs
           \<Longrightarrow> d \<noteq> ''[DONE]'' \<Longrightarrow> d \<noteq> [] \<Longrightarrow> parseJSON tr d = Inl e
           \<Longrightarrow> messagesLoop env tr response = (evs, Some e)"
    and "frames response = Some (map Yield ds @ Yield (Some d) # rest)
           \<Longrightarrow> accepted (writeSSE env) 0 evs
           \<Longrightarrow> d \<noteq> ''[DONE]'' \<Longrightarrow> d \<noteq> [] \<Longrightarrow> parseJSON tr d = Inr k
           \<Longrightarrow> translateChunkToAnthropicEvents tr k st = Inl e
           \<Longrightarrow> messagesLoop env tr response = (evs, Some e)"
    and "frames response = Some (map Yield ds @ Yield (Some d) # rest)
           \<Longrightarrow> accepted (writeSSE env) 0 (evs @ es1)
           \<Longrightarrow> d \<noteq> ''[DONE]'' \<Longrightarrow> d \<noteq> [] \<Longrightarrow> parseJSON tr d = Inr k
           \<Longrightarrow> translateChunkToAnthropicEvents tr k st = Inr (es1 @ ev # es2, st')
           \<Longrightarrow> writeSSE env (length evs + length es1) ev = Some e
           \<Longrightarrow> messagesLoop env tr response = (evs @ es1, Some e)"
proof -
  have pre: "translateFrames (writeSSE env) tr (map Yield ds @ rest') newStreamState []
      = translateFrames (writeSSE env) tr rest' st evs"
    if "accepted (writeSSE env) 0 evs" for rest'
    using translateFrames_prefix [OF assms, of "writeSSE env" "[]" rest'] that by simp
  show "frames response = Some (map Yield ds) \<Longrightarrow> accepted (writeSSE env) 0 evs
           \<Longrightarrow> messagesLoop env tr response = (evs, None)"
    using pre [of "[]"] by (simp add: messagesLoop_def)
  show "frames response = Some (map Yield ds @ Yield (Some ''[DONE]'') # rest)
           \<Longrightarrow> accepted (writeSSE env) 0 evs
           \<Longrightarrow> messagesLoop env tr response = (evs, None)"
    using pre [of "Yield (Some ''[DONE]'') # rest"] by (simp add: messagesLoop_def)
  show "frames response = Some (map Yield ds @ Throws e # rest)
           \<Longrightarrow> accepted (writeSSE env) 0 evs
           \<Longrightarrow> messagesLoop env tr response = (evs, Some e)"
    using pre [of "Throws e # rest"] by (simp add: messagesLoop_def)
  show "frames response = Some (map Yield ds @ Yield (Some d) # rest)
           \<Longrightarrow> accepted (writeSSE env) 0 evs
           \<Longrightarrow> d \<noteq> ''[DONE]'' \<Longrightarrow> d \<noteq> [] \<Longrightarrow> parseJSON tr d = Inl e
           \<Longrightarrow> messagesLoop env tr response = (evs, Some e)"
    using pre [of "Yield (Some d) # rest"] by (simp add: messagesLoop_def)
  show "frames response = Some (map Yield ds @ Yield (Some d) # rest)
           \<Longrightarrow> accepted (writeSSE env) 0 evs
           \<Longrightarrow> d \<noteq> ''[DONE]'' \<Longrightarrow> d \<noteq> [] \<Longrightarrow> parseJSON tr d = Inr k
           \<Longrightarrow> translateChunkToAnthropicEvents tr k st = Inl e
           \<Longrightarrow> messagesLoop env tr response = (evs, Some e)"
    using pre [of "Yield (Some d) # rest"] by (simp add: messagesLoop_def)
  show "frames response = Some (map Yield ds @ Yield (Some d) # rest)
           \<Longrightarrow> accepted (writeSSE env) 0 (evs @ es1)
           \<Longrightarrow> d \<noteq> ''[DONE]'' \<Longrightarrow> d \<noteq> [] \<Longrightarrow> parseJSON tr d = Inr k
           \<Longrightarrow> translateChunkToAnthropicEvents tr k st = Inr (es1 @ ev # es2, st')
           \<Longrightarrow> writeSSE env (length evs + length es1) ev = Some e
           \<Longrightarrow> messagesLoop env tr response = (evs @ es1, Some e)"
    using pre [of "Yield (Some d) # rest"]
      writeEvents_rejected [of "writeSSE env" evs es1 ev e es2]
    by (simp add: messagesLoop_def accepted_append)
qed


text \<open>What the two ends of a streamed reply say about the hooks, counted.\<close>

lemma count_list_map_WriteSSE:
  "count_list (map WriteSSE xs) MarkResponseComplete = 0 \<and>
   count_list (map WriteSSE xs) MarkRequestFailed = 0 \<and>
   count_list (map WriteSSE xs) HeartbeatStop = 0"
  by (induction xs) auto

lemma completes_counts:
  "completes env b written r \<Longrightarrow>
     count_list (effects r) MarkResponseComplete = 1 \<and>
     count_list (effects r) MarkRequestFailed = 0 \<and>
     count_list (effects r) HeartbeatStop = 1 \<and> last (effects r) = HeartbeatStop"
  by (simp add: completes_def count_list_map_WriteSSE)

lemma failsWith_counts:
  "failsWith e b written r \<Longrightarrow>
     count_list (effects r) MarkRequestFailed = 1 \<and>
     count_list (effects r) MarkResponseComplete = 0 \<and>
     count_list (effects r) HeartbeatStop = 1 \<and> last (effects r) = HeartbeatStop"
  by (simp add: failsWith_def count_list_map_WriteSSE)

text \<open>
  Claim C6. On the streaming path of either handler, every streamed reply either
  completes or fails with an error, and either way the heartbeat session's \<open>stop\<close> is
  called last. When the frames are exhausted (or the Messages handler meets \<open>[DONE]\<close>)
  and until then every pull yielded, every frame with data was parsed and translated
  and every write was accepted, the reply completes: \<open>markResponseComplete\<close> is called
  exactly once and \<open>markRequestFailed\<close> is not. When a pull throws, or \<open>JSON.parse\<close> or
  the translator throws, or a write throws (or the value cannot be iterated), the reply
  fails with that error: \<open>markRequestFailed\<close> is called exactly once,
  \<open>markResponseComplete\<close> is not, and the callback throws the error again.
\<close>

theorem stream_outcome_hooks:
  "(dispatch b = (Inr response, bb) \<and> \<not> isNonStreaming response \<longrightarrow>
      ((\<exists>written. completes env bb written (handleCompletion_chat env dispatch b)) \<or>
       (\<exists>x written. failsWith x bb written (handleCompletion_chat env dispatch b))) \<and>
      (frames response = None \<longrightarrow> failsWith notIterable bb [] (handleCompletion_chat env dispatch b)) \<and>
      (frames response = Some (map Yield cs) \<and> accepted (writeSSE env) 0 cs
         \<longrightarrow> completes env bb cs (handleCompletion_chat env dispatch b)) \<and>
      (frames response = Some (map Yield cs @ Throws e # rest) \<and> accepted (writeSSE env) 0 cs
         \<longrightarrow> failsWith e bb cs (handleCompletion_chat env dispatch b)) \<and>
      (frames response = Some (map Yield cs @ Yield c # rest) \<and> accepted (writeSSE env) 0 cs \<and>
       writeSSE env (length cs) c = Some e
         \<longrightarrow> failsWith e bb cs (handleCompletion_chat env dispatch b)))
   \<and>
   (dispatch' b' = (Inr response', bb') \<and> \<not> isNonStreaming response' \<longrightarrow>
      ((\<exists>written. completes env' bb' written (handleCompletion_messages env' tr dispatch' b')) \<or>
       (\<exists>x written. failsWith x bb' written (handleCompletion_messages env' tr dispatch' b'))) \<and>
      (frames response' = None \<longrightarrow> failsWith notIterable bb' [] (handleCompletion_messages env' tr dispatch' b')) \<and>
      (translated tr ds newStreamState = Some (evs, st) \<longrightarrow>
         (frames response' = Some (map Yield ds) \<and> accepted (writeSSE env') 0 evs
            \<longrightarrow> completes env' bb' evs (handleCompletion_messages env' tr dispatch' b')) \<and>
         (frames response' = Some (map Yield ds @ Yield (Some ''[DONE]'') # rest') \<and>
          accepted (writeSSE env') 0 evs
            \<longrightarrow> completes env' bb' evs (handleCompletion_messages env' tr dispatch' b')) \<and>
         (frames response' = Some (map Yield ds @ Throws e' # rest') \<and>
          accepted (writeSSE env') 0 evs
            \<longrightarrow> failsWith e' bb' evs (handleCompletion_messages env' tr dispatch' b')) \<and>
         (frames response' = Some (map Yield ds @ Yield (Some d) # rest') \<and>
          d \<noteq> ''[DONE]'' \<and> d \<noteq> [] \<longrightarrow>
            (accepted (writeSSE env') 0 evs \<and> parseJSON tr d = Inl e'
               \<longrightarrow> failsWith e' bb' evs (handleCompletion_messages env' tr dispatch' b')) \<and>
            (accepted (writeSSE env') 0 evs \<and> parseJSON tr d = Inr k \<and>
             translateChunkToAnthropicEvents tr k st = Inl e'
               \<longrightarrow> failsWith e' bb' evs (handleCompletion_messages env' tr dispatch' b')) \<and>
            (accepted (writeSSE env') 0 (evs @ pre) \<and> parseJSON tr d = Inr k \<and>
             translateChunkToAnthropicEvents tr k st = Inr (pre @ ev # post, st') \<and>
             writeSSE env' (length evs + length pre) ev = Some e'
               \<longrightarrow> failsWith e' bb' (evs @ pre) (handleCompletion_messages env' tr dispatch' b')))))"
proof (intro conjI impI)
  assume h: "dispatch b = (Inr response, bb) \<and> \<not> isNonStreaming response"
  then have R: "handleCompletion_chat env dispatch b = streamCallback env (chatLoop env response) bb"
    by (simp add: chat_streams)
  show "(\<exists>written. completes env bb written (handleCompletion_chat env dispatch b)) \<or>
       (\<exists>x written. failsWith x bb written (handleCompletion_chat env dispatch b))"
  proof (cases "snd (chatLoop env response)")
    case None
    from streamCallback_completes [OF this, of env bb] R show ?thesis by auto
  next
    case (Some x)
    from streamCallback_failsWith [OF this, of bb env] R show ?thesis by auto
  qed
  show "failsWith notIterable bb [] (handleCompletion_chat env dispatch b)" if "frames response = None"
    using chatLoop_cases(1) [OF that, of env]
      streamCallback_failsWith [of "chatLoop env response" notIterable bb env] R
    by simp
  show "completes env bb cs (handleCompletion_chat env dispatch b)"
    if "frames response = Some (map Yield cs) \<and> accepted (writeSSE env) 0 cs"
    using chatLoop_cases(2) [of response cs env] that
      streamCallback_completes [of "chatLoop env response" env bb] R
    by simp
  show "failsWith e bb cs (handleCompletion_chat env dispatch b)"
    if "frames response = Some (map Yield cs @ Throws e # rest) \<and> accepted (writeSSE env) 0 cs"
    using chatLoop_cases(3) [of response cs e rest env] that
      streamCallback_failsWith [of "chatLoop env response" e bb env] R
    by simp
  show "failsWith e bb cs (handleCompletion_chat env dispatch b)"
    if "frames response = Some (map Yield cs @ Yield c # rest) \<and> accepted (writeSSE env) 0 cs \<and>
       writeSSE env (length cs) c = Some e"
    using chatLoop_cases(4) [of response cs c rest env e] that
      streamCallback_failsWith [of "chatLoop env response" e bb env] R
    by simp
next
  assume h: "dispatch' b' = (Inr response', bb') \<and> \<not> isNonStreaming response'"
  then have R: "handleCompletion_messages env' tr dispatch' b' = streamCallback env' (messagesLoop env' tr response') bb'"
    by (simp add: messages_streams)
  let ?L = "messagesLoop env' tr response'"
  note fail = streamCallback_failsWith [of ?L _ bb' env']
  note ok = streamCallback_completes [of ?L env' bb']
  show "(\<exists>written. completes env' bb' written (handleCompletion_messages env' tr dispatch' b')) \<or>
       (\<exists>x written. failsWith x bb' written (handleCompletion_messages env' tr dispatch' b'))"
  proof (cases "snd ?L")
    case None
    from streamCallback_completes [OF this, of env' bb'] R show ?thesis by auto
  next
    case (Some x)
    from streamCallback_failsWith [OF this, of bb' env'] R show ?thesis by auto
  qed
  show "failsWith notIterable bb' [] (handleCompletion_messages env' tr dispatch' b')" if "frames response' = None"
    using that fail [of notIterable] R by (simp add: messagesLoop_def)
  assume t: "translated tr ds newStreamState = Some (evs, st)"
  note L = messagesLoop_cases [OF t]
  show "completes env' bb' evs (handleCompletion_messages env' tr dispatch' b')"
    if "frames response' = Some (map Yield ds) \<and> accepted (writeSSE env') 0 evs"
    using L(1) [of response' env'] that ok R by simp
  show "completes env' bb' evs (handleCompletion_messages env' tr dispatch' b')"
    if "frames response' = Some (map Yield ds @ Yield (Some ''[DONE]'') # rest') \<and>
          accepted (writeSSE env') 0 evs"
    using L(2) [of response' rest' env'] that ok R by simp
  show "failsWith e' bb' evs (handleCompletion_messages env' tr dispatch' b')"
    if "frames response' = Some (map Yield ds @ Throws e' # rest') \<and>
          accepted (writeSSE env') 0 evs"
    using L(3) [of response' e' rest' env'] that fail [of e'] R by simp
  assume f: "frames response' = Some (map Yield ds @ Yield (Some d) # rest') \<and>
          d \<noteq> ''[DONE]'' \<and> d \<noteq> []"
  show "failsWith e' bb' evs (handleCompletion_messages env' tr dispatch' b')"
    if "accepted (writeSSE env') 0 evs \<and> parseJSON tr d = Inl e'"
    using L(4) [of response' d rest' env' e'] f that fail [of e'] R by simp
  show "failsWith e' bb' evs (handleCompletion_messages env' tr dispatch' b')"
    if "accepted (writeSSE env') 0 evs \<and> parseJSON tr d = Inr k \<and>
             translateChunkToAnthropicEvents tr k st = Inl e'"
    using L(5) [of response' d rest' env' k e'] f that fail [of e'] R by simp
  show "failsWith e' bb' (evs @ pre) (handleCompletion_messages env' tr dispatch' b')"
    if "accepted (writeSSE env') 0 (evs @ pre) \<and> parseJSON tr d = Inr k \<and>
             translateChunkToAnthropicEvents tr k st = Inr (pre @ ev # post, st') \<and>
             writeSSE env' (length evs + length pre) ev = Some e'"
    using L(6) [of response' d rest' env' pre k ev post st' e'] f that fail [of e'] R by simp
qed

theorem stream_outcome_hooks_witness:
  \<open>returning (frameSequence [Yield ''a'', Yield ''b'']) initial = (Inr (frameSequence
      [Yield ''a'', Yield ''b'']), snd (determineInitiator 1000 initial)) \<and>
   \<not> isNonStreaming (frameSequence [Yield ''a'', Yield ''b'']) \<and>
   frames (frameSequence [Yield ''a'', Yield ''b'']) = Some (map Yield [''a'', ''b'']) \<and>
   accepted (writeSSE (sampleEnv :: string stream_env)) 0 [''a'', ''b''] \<and>
   completes (sampleEnv :: string stream_env) (snd (determineInitiator 1000 initial)) [''a'',
       ''b''] (handleCompletion_chat (sampleEnv :: string stream_env) (returning (frameSequence
       [Yield ''a'', Yield ''b''])) initial) \<and>
   frames (frameSequence [Yield ''a'', Throws (Error ''reset'')]) = Some (map Yield [''a''] @
       Throws (Error ''reset'') # []) \<and>
   failsWith (Error ''reset'') (snd (determineInitiator 1000 initial)) [''a'']
       (handleCompletion_chat (sampleEnv :: string stream_env) (returning (frameSequence [Yield
       ''a'', Throws (Error ''reset'')])) initial) \<and>
   frames (frameSequence [Yield ''a'', Yield ''b'', Yield ''c'']) = Some (map Yield [''a''] @
       Yield ''b'' # [Yield ''c'']) \<and>
   accepted (writeSSE (brokenPipe :: string stream_env)) 0 [''a''] \<and>
   writeSSE (brokenPipe :: string stream_env) (length [''a'']) ''b'' = Some (Error ''closed'')
       \<and>
   failsWith (Error ''closed'') (snd (determineInitiator 1000 initial)) [''a'']
       (handleCompletion_chat (brokenPipe :: string stream_env) (returning (frameSequence [Yield
       ''a'', Yield ''b'', Yield ''c''])) initial) \<and>
   failsWith notIterable (snd (determineInitiator 1000 initial)) [] (handleCompletion_chat
       (sampleEnv :: string stream_env) (returning \<lparr>ownProperties = [], frames =
       None\<rparr>) initial) \<and>
   \<not> isNonStreaming (frameSequence [Yield (Some hiChunk), Yield (Some stopChunk)]) \<and>
   translated (sampleTranslators :: (frame, event, tool_accumulator, string option, string list)
       translators) [Some hiChunk, Some stopChunk] newStreamState = Some ([message_start,
       content_block_start TextBlock 0 None, content_block_delta (text_delta ''Hi''),
       content_block_stop, message_delta end_turn None, message_stop], \<lparr>messageStartSent =
       True, contentBlockIndex = 1, contentBlockOpen = False, toolCalls = []\<rparr>) \<and>
   accepted (writeSSE (sampleEnv :: event stream_env)) 0 [message_start, content_block_start
       TextBlock 0 None, content_block_delta (text_delta ''Hi''), content_block_stop, message_delta
       end_turn None, message_stop] \<and>
   completes (sampleEnv :: event stream_env) (snd (determineInitiator 1000 initial))
       [message_start, content_block_start TextBlock 0 None, content_block_delta (text_delta
       ''Hi''), content_block_stop, message_delta end_turn None, message_stop]
       (handleCompletion_messages (sampleEnv :: event stream_env) (sampleTranslators :: (frame,
       event, tool_accumulator, string option, string list) translators) (returning (frameSequence
       [Yield (Some hiChunk), Yield (Some stopChunk)])) initial) \<and>
   completes (sampleEnv :: event stream_env) (snd (determineInitiator 1000 initial))
       [message_start, content_block_start TextBlock 0 None, content_block_delta (text_delta
       ''Hi''), content_block_stop, message_delta end_turn None, message_stop]
       (handleCompletion_messages (sampleEnv :: event stream_env) (sampleTranslators :: (frame,
       event, tool_accumulator, string option, string list) translators) (returning (frameSequence
       [Yield (Some hiChunk), Yield (Some stopChunk), Yield (Some ''[DONE]''), Yield (Some
       hiChunk)])) initial) \<and>
   translated (sampleTranslators :: (frame, event, tool_accumulator, string option, string list)
       translators) [Some hiChunk] newStreamState = Some ([message_start, content_block_start
       TextBlock 0 None, content_block_delta (text_delta ''Hi'')], \<lparr>messageStartSent = True,
       contentBlockIndex = 0, contentBlockOpen = True, toolCalls = []\<rparr>) \<and>
   failsWith (Error ''reset'') (snd (determineInitiator 1000 initial)) [message_start,
       content_block_start TextBlock 0 None, content_block_delta (text_delta ''Hi'')]
       (handleCompletion_messages (sampleEnv :: event stream_env) (sampleTranslators :: (frame,
       event, tool_accumulator, string option, string list) translators) (returning (frameSequence
       [Yield (Some hiChunk), Throws (Error ''reset'')])) initial) \<and>
   notJSON \<noteq> ''[DONE]'' \<and>
   notJSON \<noteq> [] \<and>
   parseJSON (sampleTranslators :: (frame, event, tool_accumulator, string option, string list)
       translators) notJSON = Inl (Error ''SyntaxError'') \<and>
   failsWith (Error ''SyntaxError'') (snd (determineInitiator 1000 initial)) [message_start,
       content_block_start TextBlock 0 None, content_block_delta (text_delta ''Hi'')]
       (handleCompletion_messages (sampleEnv :: event stream_env) (sampleTranslators :: (frame,
       event, tool_accumulator, string option, string list) translators) (returning (frameSequence
       [Yield (Some hiChunk), Yield (Some notJSON), Yield (Some stopChunk)])) initial) \<and>
   translated (throwingTranslators :: (frame, event, tool_accumulator, string option, string
       list) translators) [] newStreamState = Some ([], newStreamState) \<and>
   parseJSON (throwingTranslators :: (frame, event, tool_accumulator, string option, string
       list) translators) hiChunk = Inr (textFrame ''Hi'') \<and>
   translateChunkToAnthropicEvents (throwingTranslators :: (frame, event, tool_accumulator,
       string option, string list) translators) (textFrame ''Hi'') newStreamState = Inl (Error
       ''TypeError'') \<and>
   failsWith (Error ''TypeError'') (snd (determineInitiator 1000 initial)) []
       (handleCompletion_messages (sampleEnv :: event stream_env) (throwingTranslators :: (frame,
       event, tool_accumulator, string option, string list) translators) (returning (frameSequence
       [Yield (Some hiChunk)])) initial) \<and>
   translateChunkToAnthropicEvents (sampleTranslators :: (frame, event, tool_accumulator, string
       option, string list) translators) (textFrame ''Hi'') newStreamState = Inr ([message_start] @
       content_block_start TextBlock 0 None # [content_block_delta (text_delta ''Hi'')],
       \<lparr>messageStartSent = True, contentBlockIndex = 0, contentBlockOpen = True, toolCalls =
       []\<rparr>) \<and>
   accepted (writeSSE (brokenPipe :: event stream_env)) 0 ([] @ [message_start]) \<and>
   writeSSE (brokenPipe :: event stream_env) (length ([] :: event list) + length
       [message_start]) (content_block_start TextBlock 0 None) = Some (Error ''closed'') \<and>
   failsWith (Error ''closed'') (snd (determineInitiator 1000 initial)) ([] @ [message_start])
       (handleCompletion_messages (brokenPipe :: event stream_env) (sampleTranslators :: (frame,
       event, tool_accumulator, string option, string list) translators) (returning (frameSequence
       [Yield (Some hiChunk), Yield (Some stopChunk)])) initial) \<and>
   effects (handleCompletion_chat (brokenPipe :: string stream_env) (returning (frameSequence
       [Yield ''a'', Yield ''b'', Yield ''c''])) initial) = [HeartbeatStart, WriteSSE ''a'',
       MarkRequestFailed, HeartbeatStop] \<and>
   effects (handleCompletion_messages (sampleEnv :: event stream_env) (sampleTranslators ::
       (frame, event, tool_accumulator, string option, string list) translators) (returning
       (frameSequence [Yield (Some hiChunk), Yield (Some notJSON), Yield (Some stopChunk)]))
       initial) = [HeartbeatStart, WriteSSE message_start, WriteSSE (content_block_start TextBlock 0
       None), WriteSSE (content_block_delta (text_delta ''Hi'')), MarkRequestFailed,
       HeartbeatStop]\<close>
  using stream_outcome_hooks
      [where dispatch = "returning (frameSequence [Yield ''a'', Yield ''b''])"
         and b = "initial"
         and response = "frameSequence [Yield ''a'', Yield ''b'']"
         and bb = "snd (determineInitiator 1000 initial)"
         and env = "(sampleEnv :: string stream_env)"
         and cs = "[''a'', ''b'']"]
    stream_outcome_hooks
      [where dispatch = "returning (frameSequence [Yield ''a'', Throws (Error ''reset'')])"
         and b = "initial"
         and response = "frameSequence [Yield ''a'', Throws (Error ''reset'')]"
         and bb = "snd (determineInitiator 1000 initial)"
         and env = "(sampleEnv :: string stream_env)"
         and cs = "[''a'']"
         and e = "Error ''reset''"
         and rest = "[]"]
    stream_outcome_hooks
      [where dispatch = "returning (frameSequence [Yield ''a'', Yield ''b'', Yield ''c''])"
         and b = "initial"
         and response = "frameSequence [Yield ''a'', Yield ''b'', Yield ''c'']"
         and bb = "snd (determineInitiator 1000 initial)"
         and env = "(brokenPipe :: string stream_env)"
         and cs = "[''a'']"
         and c = "''b''"
         and e = "Error ''closed''"
         and rest = "[Yield ''c'']"]
    stream_outcome_hooks
      [where dispatch = "returning \<lparr>ownProperties = [], frames = None\<rparr>"
         and b = "initial"
         and response = "\<lparr>ownProperties = [], frames = None\<rparr>"
         and bb = "snd (determineInitiator 1000 initial)"
         and env = "(sampleEnv :: string stream_env)"]
    stream_outcome_hooks
      [where dispatch' = "returning (frameSequence [Yield (Some hiChunk), Yield (Some stopChunk)])"
         and b' = "initial"
         and response' = "frameSequence [Yield (Some hiChunk), Yield (Some stopChunk)]"
         and bb' = "snd (determineInitiator 1000 initial)"
         and env' = "(sampleEnv :: event stream_env)"
         and tr = "(sampleTranslators :: (frame, event, tool_accumulator, string option, string
             list) translators)"
         and ds = "[Some hiChunk, Some stopChunk]"
         and evs = "[message_start, content_block_start TextBlock 0 None, content_block_delta
             (text_delta ''Hi''), content_block_stop, message_delta end_turn None, message_stop]"
         and st = "\<lparr>messageStartSent = True, contentBlockIndex = 1, contentBlockOpen =
             False, toolCalls = []\<rparr>"]
    stream_outcome_hooks
      [where dispatch' = "returning (frameSequence [Yield (Some hiChunk), Yield (Some
          stopChunk), Yield (Some ''[DONE]''), Yield (Some hiChunk)])"
         and b' = "initial"
         and response' = "frameSequence [Yield (Some hiChunk), Yield (Some stopChunk), Yield
             (Some ''[DONE]''), Yield (Some hiChunk)]"
         and bb' = "snd (determineInitiator 1000 initial)"
         and env' = "(sampleEnv :: event stream_env)"
         and tr = "(sampleTranslators :: (frame, event, tool_accumulator, string option, string
             list) translators)"
         and ds = "[Some hiChunk, Some stopChunk]"
         and evs = "[message_start, content_block_start TextBlock 0 None, content_block_delta
             (text_delta ''Hi''), content_block_stop, message_delta end_turn None, message_stop]"
         and st = "\<lparr>messageStartSent = True, contentBlockIndex = 1, contentBlockOpen =
             False, toolCalls = []\<rparr>"
         and rest' = "[Yield (Some hiChunk)]"]
    stream_outcome_hooks
      [where dispatch' = "returning (frameSequence [Yield (Some hiChunk), Throws (Error
          ''reset'')])"
         and b' = "initial"
         and response' = "frameSequence [Yield (Some hiChunk), Throws (Error ''reset'')]"
         and bb' = "snd (determineInitiator 1000 initial)"
         and env' = "(sampleEnv :: event stream_env)"
         and tr = "(sampleTranslators :: (frame, event, tool_accumulator, string option, string
             list) translators)"
         and ds = "[Some hiChunk]"
         and evs = "[message_start, content_block_start TextBlock 0 None, content_block_delta
             (text_delta ''Hi'')]"
         and st = "\<lparr>messageStartSent = True, contentBlockIndex = 0, contentBlockOpen =
             True, toolCalls = []\<rparr>"
         and rest' = "[]"
         and e' = "Error ''reset''"]
    stream_outcome_hooks
      [where dispatch' = "returning (frameSequence [Yield (Some hiChunk), Yield (Some notJSON),
          Yield (Some stopChunk)])"
         and b' = "initial"
         and response' = "frameSequence [Yield (Some hiChunk), Yield (Some notJSON), Yield (Some
             stopChunk)]"
         and bb' = "snd (determineInitiator 1000 initial)"
         and env' = "(sampleEnv :: event stream_env)"
         and tr = "(sampleTranslators :: (frame, event, tool_accumulator, string option, string
             list) translators)"
         and ds = "[Some hiChunk]"
         and evs = "[message_start, content_block_start TextBlock 0 None, content_block_delta
             (text_delta ''Hi'')]"
         and st = "\<lparr>messageStartSent = True, contentBlockIndex = 0, contentBlockOpen =
             True, toolCalls = []\<rparr>"
         and d = "notJSON"
         and rest' = "[Yield (Some stopChunk)]"
         and e' = "Error ''SyntaxError''"]
    stream_outcome_hooks
      [where dispatch' = "returning (frameSequence [Yield (Some hiChunk)])"
         and b' = "initial"
         and response' = "frameSequence [Yield (Some hiChunk)]"
         and bb' = "snd (determineInitiator 1000 initial)"
         and env' = "(sampleEnv :: event stream_env)"
         and tr = "(throwingTranslators :: (frame, event, tool_accumulator, string option,
             string list) translators)"
         and ds = "[]"
         and evs = "[]"
         and st = "newStreamState"
         and d = "hiChunk"
         and k = "textFrame ''Hi''"
         and rest' = "[]"
         and e' = "Error ''TypeError''"]
    stream_outcome_hooks
      [where dispatch' = "returning (frameSequence [Yield (Some hiChunk), Yield (Some stopChunk)])"
         and b' = "initial"
         and response' = "frameSequence [Yield (Some hiChunk), Yield (Some stopChunk)]"
         and bb' = "snd (determineInitiator 1000 initial)"
         and env' = "(brokenPipe :: event stream_env)"
         and tr = "(sampleTranslators :: (frame, event, tool_accumulator, string option, string
             list) translators)"
         and ds = "[]"
         and evs = "[]"
         and st = "newStreamState"
         and d = "hiChunk"
         and k = "textFrame ''Hi''"
         and pre = "[message_start]"
         and ev = "content_block_start TextBlock 0 None"
         and post = "[content_block_delta (text_delta ''Hi'')]"
         and rest' = "[Yield (Some stopChunk)]"
         and e' = "Error ''closed''"
         and st' = "\<lparr>messageStartSent = True, contentBlockIndex = 0, contentBlockOpen =
             True, toolCalls = []\<rparr>"]
  by (simp add: handler_defs sample_defs translate_defs Let_def)

section \<open>Properties of the streaming translation\<close>



lemma steady_closeBlock: "steady st (closeBlock st)"
  by (simp add: steady_def closeBlock_def)
















text \<open>
  The two scenarios of section 8 of the specification, through the model, and a stream in
  which the kinds of blocks alternate.
\<close>

lemma text_scenario:
  "translateStream [roleFrame, textFrame ''Hello'', textFrame '' world'', terminalFrame FinishStop]
     = [message_start, content_block_start TextBlock 0 None,
        content_block_delta (text_delta ''Hello''), content_block_delta (text_delta '' world''),
        content_block_stop, message_delta end_turn None, message_stop]"
  by (simp add: translate_defs Let_def)

lemma tool_scenario:
  \<open>translateStream [toolFrame 0 (Some ''foo'') None, toolFrame 0 None (Some ''{"a":1''),
      toolFrame 0 None (Some ''}''), terminalFrame FinishToolCalls]
     = [message_start, content_block_start ToolUseBlock 0 (Some ''foo''),
        content_block_delta (input_json_delta ''{"a":1''), content_block_delta (input_json_delta ''}''),
        content_block_stop, message_delta tool_use None, message_stop]\<close>
  by (simp add: translate_defs Let_def)

lemma kinds_alternate:
  "translateStream [toolFrame 0 (Some ''foo'') (Some ''{''), textFrame ''Hi'',
      toolFrame 1 (Some ''bar'') None, terminalFrame FinishStop]
     = [message_start, content_block_start ToolUseBlock 0 (Some ''foo''),
        content_block_delta (input_json_delta ''{''), content_block_stop,
        content_block_start TextBlock 1 None, content_block_delta (text_delta ''Hi''),
        content_block_stop, content_block_start ToolUseBlock 2 (Some ''bar''),
        content_block_stop, message_delta end_turn None, message_stop]"
  by (simp add: translate_defs Let_def)

text \<open>
  With this translator, and a parser that yields the frame of each datum, the loop of the
  Messages handler writes the events of the stream.
\<close>

lemma translated_translateAll:
  assumes "\<forall>f. parseJSON tr (enc f) = Inr f \<and> enc f \<noteq> ''[DONE]'' \<and> enc f \<noteq> []"
    and "translateChunkToAnthropicEvents tr = (\<lambda>chunk st. Inr (translateFrame chunk st))"
  shows "translated tr (map (\<lambda>f. Some (enc f)) fs) st = Some (translateAll fs st)"
  using assms by (induction fs arbitrary: st) (simp_all add: case_prod_beta Let_def)

lemma messagesLoop_translateStream:
  assumes "\<forall>f. parseJSON tr (enc f) = Inr f \<and> enc f \<noteq> ''[DONE]'' \<and> enc f \<noteq> []"
    and "translateChunkToAnthropicEvents tr = (\<lambda>chunk st. Inr (translateFrame chunk st))"
    and "frames response = Some (map Yield (map (\<lambda>f. Some (enc f)) fs))"
    and "accepted (writeSSE env) 0 (translateStream fs)"
  shows "messagesLoop env tr response = (translateStream fs, None)"
proof -
  from translated_translateAll [OF assms(1,2), of fs newStreamState]
  have "translated tr (map (\<lambda>f. Some (enc f)) fs) newStreamState
      = Some (translateStream fs, snd (translateAll fs newStreamState))"
    by (simp add: translateStream_def)
  from messagesLoop_cases(1) [OF this assms(3,4)] show ?thesis .
qed

end
